theory Spec2Isabelle
  imports Main "HOL-Library.Sublist" "HOL-Library.Extended_Nat" "HOL-Library.Multiset"
begin

section \<open>Conventions\<close>

text \<open>
  The program is \<^verbatim>\<open>app.py\<close>, a Streamlit page over a directory of problems. Its
  functions are embedded as HOL functions over an explicit world: the file system, the
  working directory, the interpreter's module registry and the elements put on the page.

  \<^item> A Python \<^verbatim>\<open>str\<close> is a \<^typ>\<open>string\<close> holding its UTF-8 encoding, one \<^typ>\<open>char\<close>
    per byte. The bytes of an ASCII character occur in well-formed UTF-8 only as that
    character, so splitting at \<^verbatim>\<open>/\<close>, replacing spaces and rewriting delimiters act on
    the encoding as they act on the text. A \<^verbatim>\<open>str\<close> with a lone surrogate has no
    encoding and is outside the model.
  \<^item> The host is POSIX: the path separator is \<^verbatim>\<open>/\<close> and the line separator is a line
    feed. Symbolic links and permissions are not part of the file system.
  \<^item> An exception is a value; a function that can raise returns a sum whose left
    injection is the exception. What \<^verbatim>\<open>execute_notebook\<close> raises is kept with its
    traceback and its context, because the frame of that function stays reachable
    from them.
\<close>

abbreviation (input) backslash :: char where "backslash \<equiv> CHR 0x5C"
abbreviation (input) LF :: char where "LF \<equiv> CHR 0x0A"

section \<open>The directory scanner's sort key\<close>

text \<open>
  \<^verbatim>\<open>re.match(r'(\d+)_', dirname)\<close> succeeds when the name starts with a non-empty run of
  decimal digits followed at once by an underscore; the run is then the longest one,
  because the character after a shorter run is a digit. On a \<^verbatim>\<open>str\<close>, \<^verbatim>\<open>\d\<close> matches
  every character of the Unicode category \<^verbatim>\<open>Nd\<close>, and \<^verbatim>\<open>int\<close> reads each such character
  by its decimal value. The ASCII digits are the only ones below code point 128. The
  digits of every other script are ten consecutive code points, from the script's zero
  upwards; which scripts have digits depends on the Unicode version of the interpreter,
  so the zeros beyond ASCII are a parameter, \<open>zeros\<close>. The first code point of a name
  is read from its UTF-8 encoding: one byte below 0x80, or a lead byte and one to three
  continuation bytes.
\<close>

fun code_point_at :: "string \<Rightarrow> (nat \<times> string) option" where
  "code_point_at [] = None"
| "code_point_at (c # cs) =
     (let b = (of_char c :: nat)
      in if b < 0x80 then Some (b, cs)
         else if b < 0xC0 then None
         else if b < 0xE0
         then (case cs of
                 c1 # r \<Rightarrow> Some ((b - 0xC0) * 64 + (of_char c1 - 0x80), r)
               | _ \<Rightarrow> None)
         else if b < 0xF0
         then (case cs of
                 c1 # c2 # r \<Rightarrow>
                   Some ((b - 0xE0) * 4096 + (of_char c1 - 0x80) * 64 + (of_char c2 - 0x80), r)
               | _ \<Rightarrow> None)
         else (case cs of
                 c1 # c2 # c3 # r \<Rightarrow>
                   Some ((b - 0xF0) * 262144 + (of_char c1 - 0x80) * 4096 +
                         (of_char c2 - 0x80) * 64 + (of_char c3 - 0x80), r)
               | _ \<Rightarrow> None))"

text \<open>The decimal value of the digit that starts a name, with the rest of the name.\<close>

definition digit_at :: "nat list \<Rightarrow> string \<Rightarrow> (nat \<times> string) option" where
  "digit_at zeros s =
     (case code_point_at s of
        None \<Rightarrow> None
      | Some (n, rest) \<Rightarrow>
          if n < 128 then (if 48 \<le> n \<and> n \<le> 57 then Some (n - 48, rest) else None)
          else (case find (\<lambda>z. z \<le> n \<and> n < z + 10) zeros of
                  None \<Rightarrow> None
                | Some z \<Rightarrow> Some (n - z, rest)))"

lemma code_point_at_shorter:
  "code_point_at s = Some (n, rest) \<Longrightarrow> length rest < length s"
  by (cases s) (auto simp: Let_def split: if_splits list.splits)

lemma digit_at_shorter: "digit_at zeros s = Some (d, rest) \<Longrightarrow> length rest < length s"
  by (auto simp: digit_at_def dest: code_point_at_shorter split: option.splits if_splits)

text \<open>The values of the longest run of digits that starts a name, and what follows it.\<close>

function leading_digits :: "nat list \<Rightarrow> string \<Rightarrow> nat list \<times> string" where
  "leading_digits zeros s =
     (case digit_at zeros s of
        None \<Rightarrow> ([], s)
      | Some (d, rest) \<Rightarrow>
          (case leading_digits zeros rest of (ds, r) \<Rightarrow> (d # ds, r)))"
  by pat_completeness auto

termination leading_digits
  by (relation "measure (\<lambda>(zeros, s). length s)") (auto simp: digit_at_shorter)

declare leading_digits.simps [simp del]

definition int_of_digits :: "nat list \<Rightarrow> nat" where
  "int_of_digits ds = foldl (\<lambda>a d. 10 * a + d) 0 ds"

text \<open>
  The key is \<^verbatim>\<open>int(match.group(1))\<close>, or \<^verbatim>\<open>float('inf')\<close> without a match: an extended
  natural number. (A file name is far shorter than the 4300 digits from which \<^verbatim>\<open>int\<close>
  refuses a string.)
\<close>

definition get_number :: "nat list \<Rightarrow> string \<Rightarrow> enat" where
  "get_number zeros dirname =
     (let ds = fst (leading_digits zeros dirname); rest = snd (leading_digits zeros dirname)
      in if ds \<noteq> [] \<and> rest \<noteq> [] \<and> hd rest = CHR ''_''
         then enat (int_of_digits ds) else \<infinity>)"

text \<open>
  The zeros beyond ASCII of the decimal digits of Unicode 14.0, the version of
  Python 3.11: Arabic-Indic, Devanagari, fullwidth and the others.
\<close>

definition unicode_zeros :: "nat list" where
  "unicode_zeros =
     [0x660, 0x6F0, 0x7C0, 0x966, 0x9E6, 0xA66, 0xAE6, 0xB66, 0xBE6, 0xC66, 0xCE6, 0xD66,
      0xDE6, 0xE50, 0xED0, 0xF20, 0x1040, 0x1090, 0x17E0, 0x1810, 0x1946, 0x19D0, 0x1A80,
      0x1A90, 0x1B50, 0x1BB0, 0x1C40, 0x1C50, 0xA620, 0xA8D0, 0xA900, 0xA9D0, 0xA9F0,
      0xAA50, 0xABF0, 0xFF10, 0x104A0, 0x10D30, 0x11066, 0x110F0, 0x11136, 0x111D0,
      0x112F0, 0x11450, 0x114D0, 0x11650, 0x116C0, 0x11730, 0x118E0, 0x11950, 0x11C50,
      0x11D50, 0x11DA0, 0x16A60, 0x16AC0, 0x16B50, 0x1D7CE, 0x1D7D8, 0x1D7E2, 0x1D7EC,
      0x1D7F6, 0x1E140, 0x1E2F0, 0x1E950, 0x1FBF0]"

text \<open>
  \<^verbatim>\<open>sorted(xs, key=f)\<close> is a stable sort by key. A list has one stable ordering by a
  key, which insertion sort computes.
\<close>

definition sorted_by_key :: "('a \<Rightarrow> enat) \<Rightarrow> 'a list \<Rightarrow> 'a list" where
  "sorted_by_key f xs = sort_key f xs"

section \<open>The file system\<close>

text \<open>
  A node is a regular file with its text or a directory with its entry names in the
  order \<^verbatim>\<open>os.listdir\<close> enumerates them. Files hold text: a file whose bytes are not
  UTF-8, on which the loader reports a decoding failure, is outside the model, and so
  are device files, sockets and pipes. The file system maps an absolute list of path
  components (the root is the empty list) to the node there. A path string is resolved
  component by component from the root or the working directory, as the kernel does:
  every directory on the way must exist, an empty component and \<^verbatim>\<open>.\<close> stay, and
  \<^verbatim>\<open>..\<close> goes to the parent.
\<close>

datatype node = File string | Dir "string list"

type_synonym filesystem = "string list \<Rightarrow> node option"

datatype errno = ENOENT | EEXIST | ENOTDIR | EISDIR

datatype os_error = OSError errno string

fun split_slash :: "string \<Rightarrow> string list" where
  "split_slash [] = [[]]"
| "split_slash (c # cs) =
     (if c = CHR ''/'' then [] # split_slash cs
      else (case split_slash cs of [] \<Rightarrow> [[c]] | w # ws \<Rightarrow> (c # w) # ws))"

definition step :: "string list \<Rightarrow> string \<Rightarrow> string list" where
  "step cur c = (if c = [] \<or> c = ''.'' then cur
                 else if c = ''..'' then butlast cur else cur @ [c])"

fun walk :: "filesystem \<Rightarrow> string list \<Rightarrow> string list \<Rightarrow> errno + string list" where
  "walk t cur [] = Inr cur"
| "walk t cur (c # cs) =
     (case t cur of
        None \<Rightarrow> Inl ENOENT
      | Some (File _) \<Rightarrow> Inl ENOTDIR
      | Some (Dir _) \<Rightarrow> walk t (step cur c) cs)"

definition start_dir :: "string list \<Rightarrow> string \<Rightarrow> string list" where
  "start_dir wd path = (if path \<noteq> [] \<and> hd path = CHR ''/'' then [] else wd)"

definition stat :: "filesystem \<Rightarrow> string list \<Rightarrow> string \<Rightarrow> errno + node" where
  "stat t wd path =
     (if path = [] then Inl ENOENT
      else case walk t (start_dir wd path) (split_slash path) of
             Inl e \<Rightarrow> Inl e
           | Inr cs \<Rightarrow> (case t cs of None \<Rightarrow> Inl ENOENT | Some n \<Rightarrow> Inr n))"

definition os_path_exists :: "filesystem \<Rightarrow> string list \<Rightarrow> string \<Rightarrow> bool" where
  "os_path_exists t wd path = (case stat t wd path of Inl _ \<Rightarrow> False | Inr _ \<Rightarrow> True)"

definition os_path_isdir :: "filesystem \<Rightarrow> string list \<Rightarrow> string \<Rightarrow> bool" where
  "os_path_isdir t wd path =
     (case stat t wd path of Inr (Dir _) \<Rightarrow> True | _ \<Rightarrow> False)"


definition os_listdir :: "filesystem \<Rightarrow> string list \<Rightarrow> string \<Rightarrow> os_error + string list" where
  "os_listdir t wd path =
     (case stat t wd path of
        Inl e \<Rightarrow> Inl (OSError e path)
      | Inr (File _) \<Rightarrow> Inl (OSError ENOTDIR path)
      | Inr (Dir names) \<Rightarrow> Inr names)"

text \<open>
  A component list names a directory when the node there is one. A file system is well
  formed when every node sits in a directory.
\<close>

definition is_dir_at :: "filesystem \<Rightarrow> string list \<Rightarrow> bool" where
  "is_dir_at t c = (case t c of Some (Dir _) \<Rightarrow> True | _ \<Rightarrow> False)"

definition well_formed :: "filesystem \<Rightarrow> bool" where
  "well_formed t \<longleftrightarrow> (\<forall>cs c. t (cs @ [c]) \<noteq> None \<longrightarrow> is_dir_at t cs)"

text \<open>
  \<^verbatim>\<open>os.getcwd()\<close> gives the absolute path of the working directory, component after
  component from the root, when the directory is still reachable that way, and raises
  \<^verbatim>\<open>FileNotFoundError\<close> when it is not (a working directory that was removed).
\<close>

definition plain :: "string \<Rightarrow> bool" where
  "plain c \<longleftrightarrow> c \<noteq> [] \<and> c \<noteq> ''.'' \<and> c \<noteq> ''..'' \<and> CHR ''/'' \<notin> set c"

definition os_getcwd :: "filesystem \<Rightarrow> string list \<Rightarrow> os_error + string" where
  "os_getcwd t wd =
     (if list_all plain wd \<and> walk t [] wd = Inr wd \<and> is_dir_at t wd
      then Inr (if wd = [] then ''/'' else concat (map (\<lambda>c. CHR ''/'' # c) wd))
      else Inl (OSError ENOENT []))"

text \<open>\<^verbatim>\<open>os.path.join(a, b)\<close> of \<^verbatim>\<open>posixpath\<close>.\<close>

definition os_path_join :: "string \<Rightarrow> string \<Rightarrow> string" where
  "os_path_join a b =
     (if (b \<noteq> [] \<and> hd b = CHR ''/'') \<or> a = [] then b
      else if last a = CHR ''/'' then a @ b
      else a @ ''/'' @ b)"

section \<open>The world\<close>

text \<open>
  A module object is known by its name and the file it comes from (\<^verbatim>\<open>__name__\<close> and
  \<^verbatim>\<open>__file__\<close>). What Streamlit shows is kept as the list of the elements emitted,
  oldest first.
\<close>

record module =
  mod_name :: string
  mod_origin :: string

datatype element =
    St_success string
  | St_error string
  | St_html string

record world =
  fs :: filesystem
  cwd :: "string list"
  sys_modules :: "string \<Rightarrow> module option"
  page :: "element list"

definition PROBLEMS_DIR :: string where
  "PROBLEMS_DIR = ''Problems''"

section \<open>The directory scanner\<close>

text \<open>
  \<^verbatim>\<open>get_problem_directories\<close> lists \<^verbatim>\<open>PROBLEMS_DIR\<close>, keeps the entries that are
  directories and sorts them by \<^const>\<open>get_number\<close>. Nothing catches the error of
  \<^verbatim>\<open>os.listdir\<close>. The first argument is the table of digit zeros of the interpreter.
\<close>

definition get_problem_directories :: "nat list \<Rightarrow> world \<Rightarrow> os_error + string list" where
  "get_problem_directories zeros w =
     (case os_listdir (fs w) (cwd w) PROBLEMS_DIR of
        Inl e \<Rightarrow> Inl e
      | Inr names \<Rightarrow>
          Inr (sorted_by_key (get_number zeros)
                 (filter (\<lambda>d. os_path_isdir (fs w) (cwd w) (os_path_join PROBLEMS_DIR d)) names)))"

section \<open>Creating directories and files\<close>

text \<open>
  \<^verbatim>\<open>os.mkdir\<close> makes one directory in an existing parent. Trailing separators are
  allowed, the names \<^verbatim>\<open>.\<close> and \<^verbatim>\<open>..\<close> always exist already. Where a directory
  enumerates a new entry is the file system's affair: the model puts it last, and no
  statement below depends on the place of an entry that the program made.
\<close>

definition strip_trailing_empty :: "string list \<Rightarrow> string list" where
  "strip_trailing_empty comps = rev (dropWhile (\<lambda>c. c = []) (rev comps))"

definition os_mkdir :: "filesystem \<Rightarrow> string list \<Rightarrow> string \<Rightarrow> os_error + filesystem" where
  "os_mkdir t wd path =
     (if path = [] then Inl (OSError ENOENT path)
      else let comps = strip_trailing_empty (split_slash path)
      in if comps = [] then Inl (OSError EEXIST path)
         else case walk t (start_dir wd path) (butlast comps) of
                Inl e \<Rightarrow> Inl (OSError e path)
              | Inr par \<Rightarrow>
                  (case t par of
                     None \<Rightarrow> Inl (OSError ENOENT path)
                   | Some (File _) \<Rightarrow> Inl (OSError ENOTDIR path)
                   | Some (Dir names) \<Rightarrow>
                       (let c = last comps
                        in if c = ''.'' \<or> c = ''..'' then Inl (OSError EEXIST path)
                           else case t (par @ [c]) of
                                  Some _ \<Rightarrow> Inl (OSError EEXIST path)
                                | None \<Rightarrow> Inr (t(par @ [c] \<mapsto> Dir [],
                                                par \<mapsto> Dir (names @ [c]))))))"

text \<open>\<^verbatim>\<open>os.path.split\<close> of \<^verbatim>\<open>posixpath\<close>: the part up to the last separator, without
  its trailing separators unless it is made of separators only, and the part after it.\<close>

definition rstrip_slash :: "string \<Rightarrow> string" where
  "rstrip_slash s = rev (dropWhile (\<lambda>c. c = CHR ''/'') (rev s))"

definition os_path_split :: "string \<Rightarrow> string \<times> string" where
  "os_path_split p =
     (let tail = rev (takeWhile (\<lambda>c. c \<noteq> CHR ''/'') (rev p));
          head = rev (dropWhile (\<lambda>c. c \<noteq> CHR ''/'') (rev p))
      in (if head \<noteq> [] \<and> list_ex (\<lambda>c. c \<noteq> CHR ''/'') head
          then rstrip_slash head else head,
          tail))"

text \<open>
  \<^verbatim>\<open>os.makedirs(name, exist_ok=True)\<close>: make the missing ancestors first, then the
  directory itself, and accept the error of \<^verbatim>\<open>mkdir\<close> when the directory is there. The
  directories made before an error stay, so the file system is returned beside the error.
\<close>

definition makedirs_parts :: "string \<Rightarrow> string \<times> string" where
  "makedirs_parts name =
     (if snd (os_path_split name) = [] then os_path_split (fst (os_path_split name))
      else os_path_split name)"

definition mkdir_exist_ok :: "filesystem \<Rightarrow> string list \<Rightarrow> string \<Rightarrow> filesystem \<times> os_error option" where
  "mkdir_exist_ok t wd name =
     (case os_mkdir t wd name of
        Inr t' \<Rightarrow> (t', None)
      | Inl e \<Rightarrow> if os_path_isdir t wd name then (t, None) else (t, Some e))"

function makedirs :: "filesystem \<Rightarrow> string list \<Rightarrow> string \<Rightarrow> filesystem \<times> os_error option" where
  "makedirs t wd name =
     (let head = fst (makedirs_parts name); tail = snd (makedirs_parts name)
      in if head \<noteq> [] \<and> tail \<noteq> [] \<and> \<not> os_path_exists t wd head
         then (case makedirs t wd head of
                 (t', Some (OSError EEXIST p)) \<Rightarrow>
                   if tail = ''.'' then (t', None) else mkdir_exist_ok t' wd name
               | (t', Some e) \<Rightarrow> (t', Some e)
               | (t', None) \<Rightarrow>
                   if tail = ''.'' then (t', None) else mkdir_exist_ok t' wd name)
         else mkdir_exist_ok t wd name)"
  by pat_completeness auto

lemma os_path_split_parts:
  "rev (dropWhile (\<lambda>c. c \<noteq> CHR ''/'') (rev p)) @ snd (os_path_split p) = p"
proof -
  have "rev (takeWhile (\<lambda>c. c \<noteq> CHR ''/'') (rev p) @ dropWhile (\<lambda>c. c \<noteq> CHR ''/'') (rev p)) = p"
    by simp
  then show ?thesis by (simp add: os_path_split_def Let_def del: takeWhile_dropWhile_id)
qed

lemma os_path_split_head_le: "length (fst (os_path_split p)) \<le> length p"
proof -
  have "length (fst (os_path_split p)) \<le> length (rev (dropWhile (\<lambda>c. c \<noteq> CHR ''/'') (rev p)))"
    by (auto simp: os_path_split_def Let_def rstrip_slash_def
        intro: order_trans[OF length_dropWhile_le])
  also have "\<dots> \<le> length p" using length_dropWhile_le[of _ "rev p"] by simp
  finally show ?thesis .
qed

lemma os_path_split_head_less:
  assumes "snd (os_path_split p) \<noteq> []"
  shows "length (fst (os_path_split p)) < length p"
proof -
  let ?head = "rev (dropWhile (\<lambda>c. c \<noteq> CHR ''/'') (rev p))"
  have "length ?head + length (snd (os_path_split p)) = length p"
    using arg_cong[OF os_path_split_parts[of p], of length] by simp
  with assms have h: "length ?head < length p" by (cases "snd (os_path_split p)") auto
  have "length (fst (os_path_split p)) \<le> length ?head"
    by (auto simp: os_path_split_def Let_def rstrip_slash_def
        intro: order_trans[OF length_dropWhile_le])
  with h show ?thesis by simp
qed

lemma makedirs_parts_less:
  assumes "snd (makedirs_parts name) \<noteq> []"
  shows "length (fst (makedirs_parts name)) < length name"
proof (cases "snd (os_path_split name) = []")
  case True
  then have eq: "makedirs_parts name = os_path_split (fst (os_path_split name))"
    by (simp add: makedirs_parts_def)
  with assms have "length (fst (makedirs_parts name)) < length (fst (os_path_split name))"
    using os_path_split_head_less[of "fst (os_path_split name)"] by simp
  with os_path_split_head_le[of name] show ?thesis by simp
next
  case False
  then have "makedirs_parts name = os_path_split name"
    by (simp add: makedirs_parts_def)
  with assms show ?thesis using os_path_split_head_less[of name] by simp
qed

termination makedirs
  by (relation "measure (\<lambda>(t, wd, name). length name)") (auto simp: makedirs_parts_less)

declare makedirs.simps [simp del]

text \<open>
  \<^verbatim>\<open>open(path, 'w')\<close>, one \<^verbatim>\<open>write\<close> and the close: the file is created in an existing
  directory or truncated, and holds the text written. The text has an encoding (see the
  conventions), so the write cannot fail once the file is open: what a failed write
  leaves of a file that was truncated is not modelled. \<^verbatim>\<open>open(path, 'r')\<close> and
  \<^verbatim>\<open>read()\<close> give the text of a regular file with universal newlines: a carriage return,
  with the line feed after it if there is one, is read as one line feed.
\<close>

definition write_text :: "filesystem \<Rightarrow> string list \<Rightarrow> string \<Rightarrow> string \<Rightarrow> os_error + filesystem" where
  "write_text t wd path content =
     (if path = [] then Inl (OSError ENOENT path)
      else let comps = split_slash path; c = last comps
      in case walk t (start_dir wd path) (butlast comps) of
           Inl e \<Rightarrow> Inl (OSError e path)
         | Inr par \<Rightarrow>
             (case t par of
                Some (File _) \<Rightarrow> Inl (OSError ENOTDIR path)
              | None \<Rightarrow> Inl (OSError (if c = [] then EISDIR else ENOENT) path)
              | Some (Dir names) \<Rightarrow>
                  if c = [] \<or> c = ''.'' \<or> c = ''..'' then Inl (OSError EISDIR path)
                  else (case t (par @ [c]) of
                          Some (Dir _) \<Rightarrow> Inl (OSError EISDIR path)
                        | Some (File _) \<Rightarrow> Inr (t(par @ [c] \<mapsto> File content))
                        | None \<Rightarrow> Inr (t(par @ [c] \<mapsto> File content,
                                        par \<mapsto> Dir (names @ [c]))))))"

definition read_bytes :: "filesystem \<Rightarrow> string list \<Rightarrow> string \<Rightarrow> os_error + string" where
  "read_bytes t wd path =
     (case stat t wd path of
        Inl e \<Rightarrow> Inl (OSError e path)
      | Inr (Dir _) \<Rightarrow> Inl (OSError EISDIR path)
      | Inr (File content) \<Rightarrow> Inr content)"



section \<open>Formatting\<close>

text \<open>
  \<^verbatim>\<open>str\<close> of an integer, and of an \<^verbatim>\<open>OSError\<close> with a file name: the error number, its
  message and the name in quotes (as \<^verbatim>\<open>repr\<close> writes a name that has no quote, backslash
  or control character in it).
\<close>

definition digit_char :: "nat \<Rightarrow> char" where
  "digit_char d = char_of (48 + d)"

fun str_nat :: "nat \<Rightarrow> string" where
  "str_nat n = (if n < 10 then [digit_char n] else str_nat (n div 10) @ [digit_char (n mod 10)])"

declare str_nat.simps [simp del]

definition str_int :: "int \<Rightarrow> string" where
  "str_int i = (if i < 0 then ''-'' @ str_nat (nat (- i)) else str_nat (nat i))"

fun errno_number :: "errno \<Rightarrow> nat" where
  "errno_number ENOENT = 2"
| "errno_number EEXIST = 17"
| "errno_number ENOTDIR = 20"
| "errno_number EISDIR = 21"

fun strerror :: "errno \<Rightarrow> string" where
  "strerror ENOENT = ''No such file or directory''"
| "strerror EEXIST = ''File exists''"
| "strerror ENOTDIR = ''Not a directory''"
| "strerror EISDIR = ''Is a directory''"

fun str_os_error :: "os_error \<Rightarrow> string" where
  "str_os_error (OSError e filename) =
     ''[Errno '' @ str_nat (errno_number e) @ ''] '' @ strerror e @ '': '' @
     [CHR 0x27] @ filename @ [CHR 0x27]"

section \<open>The file loader and saver\<close>

text \<open>
  \<^verbatim>\<open>load_file_content\<close> returns the text read, or reports the exception on the page
  and returns the empty string. \<^verbatim>\<open>save_file_content\<close> writes and reports success or
  the exception. Both return the world, changed by what they showed and wrote.
\<close>

definition show_element :: "element \<Rightarrow> world \<Rightarrow> world" where
  "show_element e w = w\<lparr>page := page w @ [e]\<rparr>"



section \<open>The content renderer\<close>

text \<open>
  Each \<^verbatim>\<open>re.sub\<close> of \<^verbatim>\<open>render_math_content\<close> replaces, from left to right, every
  occurrence of a backslash followed by one bracket character; the replacement has no
  escape in it and is inserted as it is.
\<close>

fun re_sub_pair :: "char \<Rightarrow> char \<Rightarrow> string \<Rightarrow> string \<Rightarrow> string" where
  "re_sub_pair a b repl (x # y # zs) =
     (if x = a \<and> y = b then repl @ re_sub_pair a b repl zs
      else x # re_sub_pair a b repl (y # zs))"
| "re_sub_pair a b repl zs = zs"

definition replace_latex_delimiters :: "string \<Rightarrow> string" where
  "replace_latex_delimiters content =
     re_sub_pair backslash (CHR '']'') ''$$''
       (re_sub_pair backslash (CHR ''['') ''$$''
          (re_sub_pair backslash (CHR '')'') ''$''
             (re_sub_pair backslash (CHR ''('') ''$'' content)))"

text \<open>The document handed to \<^verbatim>\<open>components.html\<close>: the formatted string literal around
  the content.\<close>

definition html_before :: string where
  "html_before =
     [LF] @ ''        <div style='' @ [CHR 0x22] @ ''padding: 20px;'' @ [CHR 0x22] @ ''>'' @ [LF] @
     ''            ''"

definition html_after :: string where
  "html_after =
     [LF] @ ''        </div>'' @ [LF] @
     ''        <script>'' @ [LF] @
     ''            window.MathJax = {'' @ [LF] @
     ''                tex: {'' @ [LF] @
     ''                    inlineMath: [['' @ [CHR 0x27] @ ''$'' @ [CHR 0x27] @ '', '' @
         [CHR 0x27] @ ''$'' @ [CHR 0x27] @ ''], ['' @
         [CHR 0x27, backslash, backslash] @ ''('' @ [CHR 0x27] @ '', '' @
         [CHR 0x27, backslash, backslash] @ '')'' @ [CHR 0x27] @ '']],'' @ [LF] @
     ''                    displayMath: [['' @ [CHR 0x27] @ ''$$'' @ [CHR 0x27] @ '', '' @
         [CHR 0x27] @ ''$$'' @ [CHR 0x27] @ ''], ['' @
         [CHR 0x27, backslash, backslash] @ ''['' @ [CHR 0x27] @ '', '' @
         [CHR 0x27, backslash, backslash] @ '']'' @ [CHR 0x27] @ '']]'' @ [LF] @
     ''                },'' @ [LF] @
     ''                svg: {'' @ [LF] @
     ''                    fontCache: '' @ [CHR 0x27] @ ''global'' @ [CHR 0x27] @ [LF] @
     ''                }'' @ [LF] @
     ''            };'' @ [LF] @
     ''        </script>'' @ [LF] @
     ''        <script src='' @ [CHR 0x22] @
         ''https://cdn.jsdelivr.net/npm/mathjax@3/es5/tex-mml-chtml.js'' @ [CHR 0x22] @
         ''></script>'' @ [LF] @
     ''        ''"

text \<open>
  The markdown converter is a library of its own and a parameter here. The content that
  is rewritten is the converter's output for the tag \<^verbatim>\<open>.md\<close>, and the input otherwise.
\<close>

definition converted :: "(string \<Rightarrow> string) \<Rightarrow> string \<Rightarrow> string \<Rightarrow> string" where
  "converted markdown content file_ext =
     (if file_ext = ''.md'' then markdown content else content)"

definition rendered_content :: "(string \<Rightarrow> string) \<Rightarrow> string \<Rightarrow> string \<Rightarrow> string" where
  "rendered_content markdown content file_ext =
     replace_latex_delimiters (converted markdown content file_ext)"

text \<open>A text has the pair \<open>(a, b)\<close> when \<open>a\<close> occurs in it with \<open>b\<close> next; it is free of
  delimiters when it has none of the four pairs that are rewritten.\<close>

fun has_pair :: "char \<Rightarrow> char \<Rightarrow> string \<Rightarrow> bool" where
  "has_pair a b (x # y # zs) = ((x = a \<and> y = b) \<or> has_pair a b (y # zs))"
| "has_pair a b zs = False"

definition delimiter_free :: "string \<Rightarrow> bool" where
  "delimiter_free s \<longleftrightarrow>
     \<not> has_pair backslash (CHR ''('') s \<and> \<not> has_pair backslash (CHR '')'') s \<and>
     \<not> has_pair backslash (CHR ''['') s \<and> \<not> has_pair backslash (CHR '']'') s"

definition render_math_content :: "(string \<Rightarrow> string) \<Rightarrow> world \<Rightarrow> string \<Rightarrow> string \<Rightarrow> world" where
  "render_math_content markdown w content file_ext =
     show_element
       (St_html (html_before @ rendered_content markdown content file_ext @ html_after)) w"

section \<open>The problem scaffolder\<close>

text \<open>
  \<^verbatim>\<open>create_new_problem\<close> reads a number and a name from its widgets and acts when the
  button is pressed and both are truthy. The three widget values are arguments here.
\<close>

definition learn_template :: string where
  "learn_template =
     ''# Problem Description'' @ [LF, LF] @ ''## Overview'' @ [LF, LF] @ ''## Examples'' @ [LF]"

definition solution_template :: string where
  "solution_template =
     ''def solution():'' @ [LF] @ ''    pass'' @ [LF, LF] @ ''# Test cases'' @ [LF]"

definition replace_spaces :: "string \<Rightarrow> string" where
  "replace_spaces s = map (\<lambda>c. if c = CHR '' '' then CHR ''_'' else c) s"

definition dir_name_of :: "int \<Rightarrow> string \<Rightarrow> string" where
  "dir_name_of problem_number problem_name =
     str_int problem_number @ ''_'' @ replace_spaces problem_name"

definition problem_path_of :: "int \<Rightarrow> string \<Rightarrow> string" where
  "problem_path_of problem_number problem_name =
     os_path_join PROBLEMS_DIR (dir_name_of problem_number problem_name)"

definition create_error :: "os_error \<Rightarrow> element" where
  "create_error e = St_error (''Error creating problem: '' @ str_os_error e)"

definition create_new_problem :: "world \<Rightarrow> bool \<Rightarrow> int \<Rightarrow> string \<Rightarrow> world" where
  "create_new_problem w button problem_number problem_name =
     (if button \<and> problem_number \<noteq> 0 \<and> problem_name \<noteq> [] then
        (let dir_name = dir_name_of problem_number problem_name;
             problem_path = os_path_join PROBLEMS_DIR dir_name
         in case makedirs (fs w) (cwd w) problem_path of
              (t1, Some e) \<Rightarrow> show_element (create_error e) (w\<lparr>fs := t1\<rparr>)
            | (t1, None) \<Rightarrow>
                (case write_text t1 (cwd w) (os_path_join problem_path ''learn.md'')
                        learn_template of
                   Inl e \<Rightarrow> show_element (create_error e) (w\<lparr>fs := t1\<rparr>)
                 | Inr t2 \<Rightarrow>
                     (case write_text t2 (cwd w) (os_path_join problem_path ''solution.py'')
                             solution_template of
                        Inl e \<Rightarrow> show_element (create_error e) (w\<lparr>fs := t2\<rparr>)
                      | Inr t3 \<Rightarrow>
                          show_element (St_success (''Created new problem: '' @ dir_name))
                            (w\<lparr>fs := t3\<rparr>))))
      else w)"

section \<open>The notebook executor\<close>

text \<open>
  What matters of a script's top-level code is what it prints, what it does to the module
  registry and whether it raises. A statement
  \<^item> prints a line to \<^verbatim>\<open>sys.stdout\<close>;
  \<^item> raises an exception with the given \<^verbatim>\<open>str\<close>, of a class that is a subclass of
    \<^verbatim>\<open>Exception\<close> or one that is not (\<^verbatim>\<open>SystemExit\<close>, which \<^verbatim>\<open>sys.exit()\<close> raises,
    \<^verbatim>\<open>KeyboardInterrupt\<close>, \<^verbatim>\<open>GeneratorExit\<close>);
  \<^item> prints \<^verbatim>\<open>sys.modules[name].__file__\<close>;
  \<^item> imports a module, which registers it under its name unless a module is registered
    there already;
  \<^item> deletes \<^verbatim>\<open>sys.modules[name]\<close>.

  The interpreter is a parameter: for a loader and the bytes of a file it gives the code
  that the loader runs, or the \<^verbatim>\<open>str\<close> of the exception that loading raises (a syntax
  error, a bad magic number, a shared object that cannot be loaded). The byte-code cache
  of the import system is not modelled.
\<close>

datatype exc_base = Exception_subclass | BaseException_only

datatype stmt =
    Print string
  | Raise exc_base string
  | Print_file string
  | Import "module"
  | Del_module string

datatype loader = ExtensionFileLoader | SourceFileLoader | SourcelessFileLoader

type_synonym interpreter = "loader \<Rightarrow> string \<Rightarrow> string + stmt list"

record module_spec =
  spec_name :: string
  spec_origin :: string
  spec_loader :: "loader option"

text \<open>
  An exception object is known by its class and its \<^verbatim>\<open>str\<close>. The \<^verbatim>\<open>str\<close> of a
  \<^verbatim>\<open>KeyError\<close> is the \<^verbatim>\<open>repr\<close> of the key. \<^verbatim>\<open>except Exception\<close> catches every class
  but those outside \<^verbatim>\<open>Exception\<close>.
\<close>

datatype exn =
    OSErr os_error
  | ImportError string
  | LoadError string
  | KeyError string
  | ScriptError exc_base string
  | Exception string

fun str_exn :: "exn \<Rightarrow> string" where
  "str_exn (OSErr e) = str_os_error e"
| "str_exn (ImportError m) = m"
| "str_exn (LoadError m) = m"
| "str_exn (KeyError k) = [CHR 0x27] @ k @ [CHR 0x27]"
| "str_exn (ScriptError b m) = m"
| "str_exn (Exception m) = m"

fun is_exception :: "exn \<Rightarrow> bool" where
  "is_exception (ScriptError BaseException_only m) = False"
| "is_exception e = True"

text \<open>
  An exception that is raised carries its traceback, whose entries refer to the frames it
  passed through, and its \<^verbatim>\<open>__context__\<close>, the exception that was being handled when it
  was raised. Of the traceback the model keeps the frame of \<^verbatim>\<open>execute_notebook\<close> (the
  frames of the import system and of the script below it, and the caller's above it, are
  left out), and of that frame's local variables the one named \<^verbatim>\<open>buffer\<close>: what
  \<^verbatim>\<open>frame.f_locals['buffer'].getvalue()\<close> gives, when the name is bound.
\<close>

record frame =
  frame_name :: string
  frame_buffer :: "string option"

datatype raised = Raised exn "frame list" "raised option"

text \<open>
  \<^verbatim>\<open>_path_join\<close> of \<^verbatim>\<open>importlib\<close>: the non-empty parts, each without its trailing
  separators, with a separator between them.
  \<^verbatim>\<open>importlib.util.spec_from_file_location\<close> makes a relative location absolute
  with the working directory, unless \<^verbatim>\<open>os.getcwd()\<close> raises. Without a loader given it
  picks the first file loader one of whose suffixes ends the location, and returns
  \<^verbatim>\<open>None\<close> when there is none. It does not look at the file. (The suffixes of extension
  modules all end in \<^verbatim>\<open>.so\<close>.)
\<close>

definition importlib_path_join :: "string \<Rightarrow> string \<Rightarrow> string" where
  "importlib_path_join a b =
     (if a = [] then rstrip_slash b
      else if b = [] then rstrip_slash a
      else rstrip_slash a @ ''/'' @ rstrip_slash b)"

definition absolute_location :: "filesystem \<Rightarrow> string list \<Rightarrow> string \<Rightarrow> string" where
  "absolute_location t wd location =
     (if location \<noteq> [] \<and> hd location = CHR ''/'' then location
      else case os_getcwd t wd of
             Inl e \<Rightarrow> location
           | Inr d \<Rightarrow> importlib_path_join d location)"

definition spec_from_file_location :: "world \<Rightarrow> string \<Rightarrow> string \<Rightarrow> module_spec option" where
  "spec_from_file_location w name location =
     (let origin = absolute_location (fs w) (cwd w) location
      in if suffix ''.so'' origin
         then Some \<lparr>spec_name = name, spec_origin = origin, spec_loader = Some ExtensionFileLoader\<rparr>
         else if suffix ''.py'' origin
         then Some \<lparr>spec_name = name, spec_origin = origin, spec_loader = Some SourceFileLoader\<rparr>
         else if suffix ''.pyc'' origin
         then Some \<lparr>spec_name = name, spec_origin = origin, spec_loader = Some SourcelessFileLoader\<rparr>
         else None)"

text \<open>
  \<^verbatim>\<open>importlib.util.module_from_spec\<close> makes the module object, whose \<^verbatim>\<open>__file__\<close> is
  the origin of the spec. Only the loader of extension modules does work at this point:
  it loads the shared object and raises \<^verbatim>\<open>ImportError\<close> when it cannot.
\<close>

definition module_from_spec :: "interpreter \<Rightarrow> world \<Rightarrow> module_spec \<Rightarrow> exn + module" where
  "module_from_spec py w spec =
     (let m = \<lparr>mod_name = spec_name spec, mod_origin = spec_origin spec\<rparr>
      in case spec_loader spec of
           Some ExtensionFileLoader \<Rightarrow>
             (case read_bytes (fs w) (cwd w) (spec_origin spec) of
                Inl (OSError e p) \<Rightarrow>
                  Inl (ImportError (p @ '': cannot open shared object file: '' @ strerror e))
              | Inr bytes \<Rightarrow>
                  (case py ExtensionFileLoader bytes of
                     Inl msg \<Rightarrow> Inl (ImportError msg)
                   | Inr code \<Rightarrow> Inr m))
         | _ \<Rightarrow> Inr m)"

text \<open>
  Running the statements: the buffer that \<^verbatim>\<open>sys.stdout\<close> is redirected to and the
  registry are threaded through, and the run stops at the first exception.
\<close>

fun run_toplevel ::
  "stmt list \<Rightarrow> string \<Rightarrow> (string \<Rightarrow> module option) \<Rightarrow>
   string \<times> (string \<Rightarrow> module option) \<times> exn option" where
  "run_toplevel [] buffer reg = (buffer, reg, None)"
| "run_toplevel (Print s # rest) buffer reg = run_toplevel rest (buffer @ s @ [LF]) reg"
| "run_toplevel (Raise b msg # rest) buffer reg = (buffer, reg, Some (ScriptError b msg))"
| "run_toplevel (Print_file name # rest) buffer reg =
     (case reg name of
        None \<Rightarrow> (buffer, reg, Some (KeyError name))
      | Some m \<Rightarrow> run_toplevel rest (buffer @ mod_origin m @ [LF]) reg)"
| "run_toplevel (Import m # rest) buffer reg =
     run_toplevel rest buffer (if reg (mod_name m) = None then reg(mod_name m \<mapsto> m) else reg)"
| "run_toplevel (Del_module name # rest) buffer reg =
     (case reg name of
        None \<Rightarrow> (buffer, reg, Some (KeyError name))
      | Some m \<Rightarrow> run_toplevel rest buffer (reg(name := None)))"

text \<open>
  \<^verbatim>\<open>spec.loader.exec_module(module)\<close> under \<^verbatim>\<open>redirect_stdout(buffer)\<close>: get the code
  of the file at the module's origin and run it. The result is the buffer, the registry
  and the exception raised, if any.
\<close>

definition get_code :: "interpreter \<Rightarrow> world \<Rightarrow> loader \<Rightarrow> module \<Rightarrow> exn + stmt list" where
  "get_code py w ld m =
     (case read_bytes (fs w) (cwd w) (mod_origin m) of
        Inl e \<Rightarrow> Inl (OSErr e)
      | Inr bytes \<Rightarrow>
          (case py ld bytes of
             Inl msg \<Rightarrow> Inl (LoadError msg)
           | Inr code \<Rightarrow> Inr code))"

definition exec_module ::
  "interpreter \<Rightarrow> world \<Rightarrow> loader \<Rightarrow> module \<Rightarrow> string \<Rightarrow>
   string \<times> (string \<Rightarrow> module option) \<times> exn option" where
  "exec_module py w ld m buffer =
     (case get_code py w ld m of
        Inl e \<Rightarrow> (buffer, sys_modules w, Some e)
      | Inr code \<Rightarrow> run_toplevel code buffer (sys_modules w))"

text \<open>
  \<^verbatim>\<open>execute_notebook\<close>: an exception of its body that \<^verbatim>\<open>except Exception\<close> catches is
  replaced by an \<^verbatim>\<open>Exception\<close> whose message is built from \<^verbatim>\<open>str(e)\<close>, raised while
  the first is handled; any other exception leaves the function as it is. The buffer is a
  local variable, bound from line 140 on; the function returns its value when nothing was
  raised. The result is what the call returns or raises, with the world it leaves.
\<close>

definition execute_notebook_frame :: "string option \<Rightarrow> frame" where
  "execute_notebook_frame buffer = \<lparr>frame_name = ''execute_notebook'', frame_buffer = buffer\<rparr>"

definition except_Exception :: "frame \<Rightarrow> exn \<Rightarrow> raised" where
  "except_Exception fr e =
     (if is_exception e
      then Raised (Exception (''Error executing notebook: '' @ str_exn e)) [fr]
             (Some (Raised e [fr] None))
      else Raised e [fr] None)"

definition execute_notebook :: "interpreter \<Rightarrow> world \<Rightarrow> string \<Rightarrow> (raised + string) \<times> world" where
  "execute_notebook py w notebook_path =
     (case spec_from_file_location w ''notebook_module'' notebook_path of
        None \<Rightarrow>
          (Inl (except_Exception (execute_notebook_frame None)
                  (ImportError (''Could not load spec for '' @ notebook_path))), w)
      | Some spec \<Rightarrow>
          (case module_from_spec py w spec of
             Inl e \<Rightarrow> (Inl (except_Exception (execute_notebook_frame None) e), w)
           | Inr m \<Rightarrow>
               (case spec_loader spec of
                  None \<Rightarrow>
                    (Inl (except_Exception (execute_notebook_frame None)
                            (ImportError (''Could not load module for '' @ notebook_path))), w)
                | Some ld \<Rightarrow>
                    (let w' = w\<lparr>sys_modules := (sys_modules w)(''notebook_module'' \<mapsto> m)\<rparr>
                     in case exec_module py w' ld m [] of
                          (buffer, reg, Some e) \<Rightarrow>
                            (Inl (except_Exception (execute_notebook_frame (Some buffer)) e),
                             w'\<lparr>sys_modules := reg\<rparr>)
                        | (buffer, reg, None) \<Rightarrow> (Inr buffer, w'\<lparr>sys_modules := reg\<rparr>)))))"

section \<open>Example worlds\<close>

text \<open>
  A problems directory with numbered and unnumbered folders and one regular file. One
  folder has its number written with the Arabic-Indic digit three (U+0663, in UTF-8 the
  bytes D9 A3).
\<close>

definition three_roots :: string where
  "three_roots = [CHR 0xD9, CHR 0xA3] @ ''_roots''"

definition demo_fs :: filesystem where
  "demo_fs = Map.empty
     ([] \<mapsto> Dir [''Problems''],
      [''Problems''] \<mapsto>
        Dir [''10_graphs'', ''notes'', ''2_sums'', ''readme.md'', three_roots,
             ''interactive_learn'', ''1_intro''],
      [''Problems'', ''10_graphs''] \<mapsto> Dir [],
      [''Problems'', ''notes''] \<mapsto> Dir [],
      [''Problems'', ''2_sums''] \<mapsto> Dir [],
      [''Problems'', ''readme.md''] \<mapsto> File ''hello'',
      [''Problems'', three_roots] \<mapsto> Dir [],
      [''Problems'', ''interactive_learn''] \<mapsto> Dir [],
      [''Problems'', ''1_intro''] \<mapsto> Dir [])"

definition demo_world :: world where
  "demo_world = \<lparr>fs = demo_fs, cwd = [], sys_modules = Map.empty, page = []\<rparr>"

text \<open>A working directory without \<^verbatim>\<open>Problems\<close>, and one where it is a regular file.\<close>

definition bare_world :: world where
  "bare_world =
     \<lparr>fs = Map.empty([] \<mapsto> Dir []), cwd = [], sys_modules = Map.empty, page = []\<rparr>"

definition file_root_world :: world where
  "file_root_world =
     \<lparr>fs = Map.empty([] \<mapsto> Dir [''Problems''], [''Problems''] \<mapsto> File ''x''),
      cwd = [], sys_modules = Map.empty, page = []\<rparr>"

text \<open>
  Four scripts, an interpreter that knows them, and a world with a notebook, whose
  working directory is \<^verbatim>\<open>/srv/app\<close>. The interpreter gives each of the four sources
  the code that Python runs for it; it is not consulted on another source by what
  follows. (\<^verbatim>\<open>import sys\<close> finds that module registered, as it always is, and changes
  nothing: the registry of the world shows the other modules only.) The registry holds
  a module from an earlier run.
\<close>

definition py_print :: "string \<Rightarrow> string" where
  "py_print s = ''print('' @ [CHR 0x22] @ s @ [CHR 0x22] @ '')'' @ [LF]"

definition py_raise :: "string \<Rightarrow> string \<Rightarrow> string" where
  "py_raise cls s = ''raise '' @ cls @ ''('' @ [CHR 0x22] @ s @ [CHR 0x22] @ '')'' @ [LF]"

definition hello_script :: string where
  "hello_script = py_print ''hello'' @ py_print ''world''"

definition failing_script :: string where
  "failing_script = py_print ''partial'' @ py_raise ''Exception'' ''boom''"

definition exiting_script :: string where
  "exiting_script = py_print ''partial'' @ py_raise ''SystemExit'' ''stop''"

definition inspecting_script :: string where
  "inspecting_script =
     ''import sys'' @ [LF] @
     ''print(sys.modules['' @ [CHR 0x22] @ ''notebook_module'' @ [CHR 0x22] @ ''].__file__)'' @ [LF] @
     py_raise ''Exception'' ''boom''"

definition demo_python :: interpreter where
  "demo_python ld source =
     (if ld = SourceFileLoader \<and> source = hello_script
      then Inr [Print ''hello'', Print ''world'']
      else if ld = SourceFileLoader \<and> source = failing_script
      then Inr [Print ''partial'', Raise Exception_subclass ''boom'']
      else if ld = SourceFileLoader \<and> source = exiting_script
      then Inr [Print ''partial'', Raise BaseException_only ''stop'']
      else if ld = SourceFileLoader \<and> source = inspecting_script
      then Inr [Print_file ''notebook_module'', Raise Exception_subclass ''boom'']
      else Inl ''invalid syntax'')"

definition notebook_path :: string where
  "notebook_path = ''Problems/interactive_learn/problem-1/notebook.py''"

definition old_module :: module where
  "old_module = \<lparr>mod_name = ''notebook_module'', mod_origin = ''/srv/old/notebook.py''\<rparr>"

definition notebook_world :: "string \<Rightarrow> world" where
  "notebook_world script =
     \<lparr>fs = Map.empty
        ([] \<mapsto> Dir [''srv''],
         [''srv''] \<mapsto> Dir [''app''],
         [''srv'', ''app''] \<mapsto> Dir [''Problems''],
         [''srv'', ''app'', ''Problems''] \<mapsto> Dir [''interactive_learn'', ''notes.txt''],
         [''srv'', ''app'', ''Problems'', ''notes.txt''] \<mapsto> File ''remember'',
         [''srv'', ''app'', ''Problems'', ''interactive_learn''] \<mapsto> Dir [''problem-1''],
         [''srv'', ''app'', ''Problems'', ''interactive_learn'', ''problem-1''] \<mapsto>
           Dir [''notebook.py''],
         [''srv'', ''app'', ''Problems'', ''interactive_learn'', ''problem-1'', ''notebook.py''] \<mapsto>
           File script),
      cwd = [''srv'', ''app''],
      sys_modules = Map.empty(''notebook_module'' \<mapsto> old_module), page = []\<rparr>"

text \<open>
  A text with an inline and a display formula. Python-Markdown reads a backslash before
  a bracket as an escape and drops it: its value at this text is the paragraph given
  here, and the converter below has that value there.
\<close>

definition formula_text :: string where
  "formula_text =
     [backslash] @ ''(x'' @ [backslash] @ '') and '' @ [backslash] @ ''[y'' @ [backslash] @ '']''"

definition escaping_markdown :: "string \<Rightarrow> string" where
  "escaping_markdown s = (if s = formula_text then ''<p>(x) and [y]</p>'' else s)"

text \<open>A problem folder made earlier, with edited files, and a problems directory that is
  still empty.\<close>

definition old_problem_world :: world where
  "old_problem_world =
     \<lparr>fs = Map.empty
        ([] \<mapsto> Dir [''Problems''],
         [''Problems''] \<mapsto> Dir [''7_old''],
         [''Problems'', ''7_old''] \<mapsto> Dir [''learn.md'', ''solution.py''],
         [''Problems'', ''7_old'', ''learn.md''] \<mapsto> File ''my notes'',
         [''Problems'', ''7_old'', ''solution.py''] \<mapsto> File ''print(1)''),
      cwd = [], sys_modules = Map.empty, page = []\<rparr>"

definition fresh_world :: world where
  "fresh_world =
     \<lparr>fs = Map.empty([] \<mapsto> Dir [''Problems''], [''Problems''] \<mapsto> Dir []),
      cwd = [], sys_modules = Map.empty, page = []\<rparr>"

section \<open>The order of the scanner's result\<close>


















section \<open>The scanner on a missing root\<close>

text \<open>
  Claim C2, amended. When \<^verbatim>\<open>Problems\<close> does not exist or is not a directory, the
  scanner returns no list: the error of \<^verbatim>\<open>os.listdir\<close> for that path leaves it as an
  exception, \<^verbatim>\<open>FileNotFoundError\<close> or \<^verbatim>\<open>NotADirectoryError\<close>.
\<close>

theorem scanner_raises_without_root:
  assumes "\<not> os_path_isdir (fs w) (cwd w) PROBLEMS_DIR"
  shows "get_problem_directories zeros w = Inl (OSError ENOENT ''Problems'') \<or>
         get_problem_directories zeros w = Inl (OSError ENOTDIR ''Problems'')"
proof (cases "stat (fs w) (cwd w) PROBLEMS_DIR")
  case (Inl e)
  then have "e = ENOENT \<or> e = ENOTDIR"
    by (auto simp: stat_def PROBLEMS_DIR_def start_dir_def
        split: if_splits sum.splits option.splits node.splits)
  with Inl show ?thesis
    by (auto simp: get_problem_directories_def os_listdir_def PROBLEMS_DIR_def)
next
  case (Inr n)
  with assms obtain content where "n = File content"
    by (cases n) (auto simp: os_path_isdir_def)
  with Inr show ?thesis
    by (simp add: get_problem_directories_def os_listdir_def PROBLEMS_DIR_def)
qed

lemma file_root_not_dir:
  "\<not> os_path_isdir (fs file_root_world) (cwd file_root_world) PROBLEMS_DIR"
  by (simp add: file_root_world_def os_path_isdir_def stat_def PROBLEMS_DIR_def
      start_dir_def step_def)

lemma file_root_not_missing:
  "get_problem_directories unicode_zeros file_root_world \<noteq> Inl (OSError ENOENT ''Problems'')"
  by (simp add: file_root_world_def get_problem_directories_def os_listdir_def stat_def
      PROBLEMS_DIR_def start_dir_def step_def)

theorem scanner_raises_without_root_witness:
  "\<not> os_path_isdir (fs file_root_world) (cwd file_root_world) PROBLEMS_DIR \<and>
   get_problem_directories unicode_zeros file_root_world = Inl (OSError ENOTDIR ''Problems'')"
  using scanner_raises_without_root[OF file_root_not_dir, of unicode_zeros] file_root_not_dir
    file_root_not_missing
  by blast

text \<open>In a working directory without \<^verbatim>\<open>Problems\<close> the scanner raises
  \<^verbatim>\<open>FileNotFoundError\<close>; it does not return the empty list.\<close>

theorem scanner_missing_root_counterexample:
  "\<not> os_path_exists (fs bare_world) (cwd bare_world) PROBLEMS_DIR \<and>
   get_problem_directories unicode_zeros bare_world = Inl (OSError ENOENT ''Problems'') \<and>
   get_problem_directories unicode_zeros bare_world \<noteq> Inr []"
  by (simp add: bare_world_def get_problem_directories_def os_listdir_def os_path_exists_def
      stat_def PROBLEMS_DIR_def start_dir_def step_def)

section \<open>The delimiter rewrite\<close>

lemma has_pair_sublist: "has_pair a b s \<longleftrightarrow> sublist [a, b] s"
proof (induction a b s rule: has_pair.induct)
  case (1 a b x y zs)
  then show ?case by (auto simp: sublist_Cons_right prefix_def)
next
  case "2_1"
  then show ?case by simp
next
  case "2_2"
  then show ?case by (auto simp: sublist_Cons_right prefix_def)
qed

lemma re_sub_pair_Cons_other:
  "x \<noteq> a \<Longrightarrow> re_sub_pair a b r (x # ys) = x # re_sub_pair a b r ys"
  by (cases ys) auto

lemma re_sub_pair_append:
  "\<not> (xs \<noteq> [] \<and> ys \<noteq> [] \<and> last xs = a \<and> hd ys = b) \<Longrightarrow>
   re_sub_pair a b r (xs @ ys) = re_sub_pair a b r xs @ re_sub_pair a b r ys"
proof (induction a b r xs rule: re_sub_pair.induct)
  case (1 a b repl x y zs)
  then show ?case by (cases "zs = []") (auto split: if_splits)
next
  case "2_1"
  then show ?case by simp
next
  case "2_2"
  then show ?case by (cases ys) auto
qed

lemma re_sub_pair_id: "\<not> has_pair a b s \<Longrightarrow> re_sub_pair a b r s = s"
  by (induction a b s rule: has_pair.induct) auto

lemma hd_re_sub_pair:
  "r \<noteq> [] \<Longrightarrow> s \<noteq> [] \<Longrightarrow> hd (re_sub_pair a b r s) = hd s \<or> hd (re_sub_pair a b r s) = hd r"
  by (induction a b r s rule: re_sub_pair.induct) auto

lemma has_pair_Cons: "has_pair a b (x # s) \<longleftrightarrow> (s \<noteq> [] \<and> x = a \<and> hd s = b) \<or> has_pair a b s"
  by (cases s) auto

lemma has_pair_append:
  "has_pair a b (xs @ ys) \<longleftrightarrow>
     has_pair a b xs \<or> has_pair a b ys \<or> (xs \<noteq> [] \<and> ys \<noteq> [] \<and> last xs = a \<and> hd ys = b)"
proof (induction xs)
  case Nil
  then show ?case by simp
next
  case (Cons x xs)
  then show ?case by (cases xs) (auto simp: has_pair_Cons)
qed

lemma has_pair_free: "a \<notin> set r \<Longrightarrow> \<not> has_pair a b r"
  by (induction a b r rule: has_pair.induct) auto

lemma has_pair_repl_append:
  assumes "r \<noteq> []" "a \<notin> set r" "b \<notin> set r" "\<not> has_pair a b t"
  shows "\<not> has_pair a b (r @ t)"
proof -
  from assms(1,2) have "last r \<noteq> a" using last_in_set by metis
  with assms show ?thesis by (simp add: has_pair_append has_pair_free)
qed

lemma has_pair_after_sub:
  assumes "r \<noteq> []" "b \<notin> set r" "\<not> has_pair a b (re_sub_pair a' b' r (y # zs))"
    and "\<not> (x = a \<and> y = b)"
  shows "\<not> has_pair a b (x # re_sub_pair a' b' r (y # zs))"
proof -
  from assms(1,2) have "hd r \<noteq> b" using hd_in_set by metis
  moreover have "hd (re_sub_pair a' b' r (y # zs)) = y \<or> hd (re_sub_pair a' b' r (y # zs)) = hd r"
    using hd_re_sub_pair[OF assms(1), of "y # zs"] by simp
  ultimately show ?thesis using assms(3,4) by (auto simp: has_pair_Cons)
qed

lemma re_sub_pair_keeps_free:
  assumes "r \<noteq> []" "a \<notin> set r" "b \<notin> set r"
  shows "\<not> has_pair a b s \<Longrightarrow> \<not> has_pair a b (re_sub_pair a' b' r s)"
  using assms
proof (induction a' b' r s rule: re_sub_pair.induct)
  case (1 a' b' repl x y zs)
  from "1.prems"(1) have nyz: "\<not> has_pair a b (y # zs)" and nxy: "\<not> (x = a \<and> y = b)"
    by auto
  from nyz have nz: "\<not> has_pair a b zs" by (auto simp: has_pair_Cons)
  show ?case
  proof (cases "x = a' \<and> y = b'")
    case True
    with "1.IH"(1) nz "1.prems" have "\<not> has_pair a b (re_sub_pair a' b' repl zs)" by simp
    with True "1.prems" show ?thesis by (simp add: has_pair_repl_append)
  next
    case False
    with "1.IH"(2) nyz "1.prems" have "\<not> has_pair a b (re_sub_pair a' b' repl (y # zs))" by simp
    from has_pair_after_sub[OF "1.prems"(2) "1.prems"(4) this nxy] False show ?thesis by auto
  qed
qed simp_all

lemma re_sub_pair_removes:
  assumes "r \<noteq> []" "a \<notin> set r" "b \<notin> set r"
  shows "\<not> has_pair a b (re_sub_pair a b r s)"
  using assms
proof (induction a b r s rule: re_sub_pair.induct)
  case (1 a b repl x y zs)
  show ?case
  proof (cases "x = a \<and> y = b")
    case True
    with "1.IH"(1) "1.prems" have "\<not> has_pair a b (re_sub_pair a b repl zs)" by simp
    with True "1.prems" show ?thesis by (simp add: has_pair_repl_append)
  next
    case False
    with "1.IH"(2) "1.prems" have "\<not> has_pair a b (re_sub_pair a b repl (y # zs))" by simp
    from has_pair_after_sub[OF "1.prems"(1) "1.prems"(3) this False] False show ?thesis by auto
  qed
qed simp_all

lemma replace_output_free: "delimiter_free (replace_latex_delimiters s)"
  unfolding delimiter_free_def replace_latex_delimiters_def
  by (intro conjI re_sub_pair_removes re_sub_pair_keeps_free) simp_all

lemma replace_id: "delimiter_free s \<Longrightarrow> replace_latex_delimiters s = s"
  by (simp add: delimiter_free_def replace_latex_delimiters_def re_sub_pair_id)

lemma re_sub_pair_around:
  assumes "c \<noteq> a" "c \<noteq> b"
  shows "re_sub_pair a b r (xs @ c # ys) = re_sub_pair a b r xs @ c # re_sub_pair a b r ys"
  using assms by (simp add: re_sub_pair_append re_sub_pair_Cons_other)

lemma re_sub_pair_site:
  assumes "a \<noteq> b"
  shows "re_sub_pair a b r (xs @ a # b # ys) = re_sub_pair a b r xs @ r @ re_sub_pair a b r ys"
  using assms by (simp add: re_sub_pair_append)

lemma re_sub_pair_other_site:
  assumes "a \<noteq> b" "c \<noteq> a" "c \<noteq> b"
  shows "re_sub_pair a b r (xs @ a # c # ys) = re_sub_pair a b r xs @ a # c # re_sub_pair a b r ys"
proof -
  have "re_sub_pair a b r (a # c # ys) = a # c # re_sub_pair a b r ys"
    using assms by (cases ys) auto
  with assms show ?thesis by (simp add: re_sub_pair_append)
qed

lemma replace_inline_site:
  "replace_latex_delimiters (pre @ [backslash, CHR ''(''] @ x @ [backslash, CHR '')''] @ post) =
     replace_latex_delimiters pre @ ''$'' @ replace_latex_delimiters x @ ''$'' @
     replace_latex_delimiters post"
  by (simp add: replace_latex_delimiters_def re_sub_pair_site re_sub_pair_other_site
      re_sub_pair_around re_sub_pair_Cons_other)

lemma replace_display_site:
  "replace_latex_delimiters (pre @ [backslash, CHR ''[''] @ y @ [backslash, CHR '']''] @ post) =
     replace_latex_delimiters pre @ ''$$'' @ replace_latex_delimiters y @ ''$$'' @
     replace_latex_delimiters post"
  by (simp add: replace_latex_delimiters_def re_sub_pair_site re_sub_pair_other_site
      re_sub_pair_around re_sub_pair_Cons_other)

text \<open>
  What the rewrite does to a text that reaches it: a formula between a backslash with an
  opening parenthesis and a backslash with a closing one comes out between dollar
  signs, one between backslashes with square brackets between double dollar signs (the
  formulas having no delimiter inside), and no delimiter is left in the result.
\<close>

lemma rewrite_at_sites:
  assumes "sublist ([backslash, CHR ''(''] @ x @ [backslash, CHR '')'']) text"
    and "sublist ([backslash, CHR ''[''] @ y @ [backslash, CHR '']'']) text"
    and "delimiter_free x" and "delimiter_free y"
  shows "sublist (''$'' @ x @ ''$'') (replace_latex_delimiters text) \<and>
         sublist (''$$'' @ y @ ''$$'') (replace_latex_delimiters text) \<and>
         delimiter_free (replace_latex_delimiters text)"
proof -
  from assms(1) obtain p1 q1 where
    "text = p1 @ ([backslash, CHR ''(''] @ x @ [backslash, CHR '')'']) @ q1"
    by (auto simp: sublist_def)
  then have "replace_latex_delimiters text =
      replace_latex_delimiters p1 @ (''$'' @ x @ ''$'') @ replace_latex_delimiters q1"
    using replace_inline_site[of p1 x q1] replace_id[OF assms(3)] by simp
  then have a: "sublist (''$'' @ x @ ''$'') (replace_latex_delimiters text)"
    unfolding sublist_def by blast
  from assms(2) obtain p2 q2 where
    "text = p2 @ ([backslash, CHR ''[''] @ y @ [backslash, CHR '']'']) @ q2"
    by (auto simp: sublist_def)
  then have "replace_latex_delimiters text =
      replace_latex_delimiters p2 @ (''$$'' @ y @ ''$$'') @ replace_latex_delimiters q2"
    using replace_display_site[of p2 y q2] replace_id[OF assms(4)] by simp
  then have b: "sublist (''$$'' @ y @ ''$$'') (replace_latex_delimiters text)"
    unfolding sublist_def by blast
  from a b replace_output_free show ?thesis by simp
qed

text \<open>
  Claim C5, a defect of the code. The input is \<^const>\<open>formula_text\<close>: the letter x
  between the inline delimiters, the word \<^verbatim>\<open>and\<close>, the letter y between the display
  delimiters; the tag is \<^verbatim>\<open>.md\<close>. The markdown converter runs first and takes each
  backslash before a bracket for an escape, so the text that reaches the rewrite has no
  delimiter, and the rendered content, \<^verbatim>\<open><p>(x) and [y]</p>\<close>, has no dollar sign: it
  contains neither \<^verbatim>\<open>$x$\<close> nor \<^verbatim>\<open>$$y$$\<close>. With another tag the same input is
  rendered as \<^verbatim>\<open>$x$ and $$y$$\<close>.
\<close>

theorem markdown_drops_delimiters:
  "sublist ([backslash] @ ''(x'' @ [backslash] @ '')'') formula_text \<and>
   sublist ([backslash] @ ''[y'' @ [backslash] @ '']'') formula_text \<and>
   rendered_content escaping_markdown formula_text ''.md'' = ''<p>(x) and [y]</p>'' \<and>
   \<not> sublist ''$x$'' (rendered_content escaping_markdown formula_text ''.md'') \<and>
   \<not> sublist ''$$y$$'' (rendered_content escaping_markdown formula_text ''.md'') \<and>
   page (render_math_content escaping_markdown demo_world formula_text ''.md'') =
     [St_html (html_before @ ''<p>(x) and [y]</p>'' @ html_after)] \<and>
   rendered_content escaping_markdown formula_text ''.html'' = ''$x$ and $$y$$''"
  by (simp add: render_math_content_def show_element_def demo_world_def rendered_content_def
      converted_def replace_latex_delimiters_def formula_text_def escaping_markdown_def
      sublist_Cons_right prefix_def)

section \<open>Resolving paths\<close>

lemma is_dir_atD: "is_dir_at t c \<Longrightarrow> \<exists>ns. t c = Some (Dir ns)"
  by (auto simp: is_dir_at_def split: option.splits node.splits)

lemma walk_append:
  "walk t s (xs @ ys) = (case walk t s xs of Inl e \<Rightarrow> Inl e | Inr m \<Rightarrow> walk t m ys)"
  by (induction xs arbitrary: s) (auto split: option.splits node.splits)

lemma walk_skip_empty:
  "walk t s (replicate k [] @ y # ys) = walk t s (y # ys)"
  by (induction k) (auto simp: step_def split: option.splits node.splits)

lemma walk_empties:
  "walk t s (replicate (Suc k) []) =
     (case t s of None \<Rightarrow> Inl ENOENT | Some (File _) \<Rightarrow> Inl ENOTDIR | Some (Dir _) \<Rightarrow> Inr s)"
  by (induction k) (auto simp: step_def split: option.splits node.splits)

lemma walk_then_last:
  "walk t s (xs @ replicate j2 [] @ [c]) =
     (case walk t s (xs @ replicate j1 []) of Inl e \<Rightarrow> Inl e | Inr cur \<Rightarrow> walk t cur [c])"
proof (cases "walk t s xs")
  case (Inl e)
  then show ?thesis by (simp add: walk_append)
next
  case (Inr m)
  have l: "walk t s (xs @ replicate j2 [] @ [c]) = walk t m [c]"
    using Inr walk_append[of t s xs "replicate j2 [] @ [c]"] walk_skip_empty[of t m j2 c "[]"]
    by simp
  have r: "walk t s (xs @ replicate j1 []) =
      (if j1 = 0 then Inr m
       else case t m of None \<Rightarrow> Inl ENOENT | Some (File _) \<Rightarrow> Inl ENOTDIR
            | Some (Dir _) \<Rightarrow> Inr m)"
    using Inr walk_append[of t s xs "replicate j1 []"] walk_empties[of t m "j1 - 1"]
    by (cases j1) auto
  show ?thesis unfolding l r by (auto split: option.splits node.splits)
qed

lemma split_slash_ne [simp]: "split_slash s \<noteq> []"
  by (induction s) (auto split: list.splits)

lemma split_slash_join:
  "split_slash (a @ CHR ''/'' # b) = split_slash a @ split_slash b"
  by (induction a) (auto split: list.splits)

lemma split_slash_plain: "CHR ''/'' \<notin> set b \<Longrightarrow> split_slash b = [b]"
  by (induction b) (auto split: list.splits)

lemma split_slash_slashes: "split_slash (replicate k (CHR ''/'')) = replicate (Suc k) []"
  by (induction k) auto

lemma split_slash_slashes_then:
  "CHR ''/'' \<notin> set b \<Longrightarrow> split_slash (replicate k (CHR ''/'') @ b) = replicate k [] @ [b]"
  by (induction k) (auto simp: split_slash_plain)

lemma split_slash_trailing:
  "split_slash (a @ replicate k (CHR ''/'')) = split_slash a @ replicate k []"
proof (cases k)
  case 0
  then show ?thesis by simp
next
  case (Suc j)
  have "split_slash (a @ CHR ''/'' # replicate j (CHR ''/'')) = split_slash a @ replicate (Suc j) []"
    by (simp only: split_slash_join split_slash_slashes)
  with Suc show ?thesis by simp
qed

lemma all_same_replicate: "\<forall>x\<in>set xs. x = c \<Longrightarrow> xs = replicate (length xs) c"
  by (induction xs) auto

lemma rstrip_slash_parts: "\<exists>k. s = rstrip_slash s @ replicate k (CHR ''/'')"
proof -
  let ?P = "\<lambda>c. c = CHR ''/''"
  have "rev (takeWhile ?P (rev s) @ dropWhile ?P (rev s)) = s" by simp
  then have a: "rstrip_slash s @ rev (takeWhile ?P (rev s)) = s"
    by (simp add: rstrip_slash_def del: takeWhile_dropWhile_id)
  have "\<forall>x\<in>set (rev (takeWhile ?P (rev s))). x = CHR ''/''"
    by (auto dest: set_takeWhileD)
  from all_same_replicate[OF this] a show ?thesis by metis
qed


lemma rstrip_slash_last: "rstrip_slash s \<noteq> [] \<Longrightarrow> last (rstrip_slash s) \<noteq> CHR ''/''"
proof -
  assume a: "rstrip_slash s \<noteq> []"
  let ?d = "dropWhile (\<lambda>c. c = CHR ''/'') (rev s)"
  from a have ne: "?d \<noteq> []" by (simp add: rstrip_slash_def)
  then have "hd ?d \<noteq> CHR ''/''" using hd_dropWhile[of "\<lambda>c. c = CHR ''/''" "rev s"] by simp
  with ne show ?thesis by (simp add: rstrip_slash_def last_rev)
qed

lemma os_path_split_tail_plain: "CHR ''/'' \<notin> set (snd (os_path_split p))"
  by (auto simp: os_path_split_def Let_def dest: set_takeWhileD)

lemma os_path_split_shape:
  assumes "os_path_split p = (h, bn)" "h \<noteq> []" "bn \<noteq> []"
  shows "\<exists>xs j1 j2 rest. split_slash h = xs @ replicate j1 [] \<and>
           split_slash p = xs @ replicate j2 [] @ [bn] \<and> p = h @ rest"
proof -
  define h0 where "h0 = rev (dropWhile (\<lambda>c. c \<noteq> CHR ''/'') (rev p))"
  from assms(1) have bn: "snd (os_path_split p) = bn" by simp
  have p: "p = h0 @ bn" using os_path_split_parts[of p] bn by (simp add: h0_def)
  have plain: "CHR ''/'' \<notin> set bn" using os_path_split_tail_plain[of p] bn by simp
  have "fst (os_path_split p) = (if h0 \<noteq> [] \<and> list_ex (\<lambda>c. c \<noteq> CHR ''/'') h0
                                 then rstrip_slash h0 else h0)"
    unfolding os_path_split_def Let_def h0_def by (simp only: fst_conv)
  with assms(1) have h: "h = (if h0 \<noteq> [] \<and> list_ex (\<lambda>c. c \<noteq> CHR ''/'') h0
                              then rstrip_slash h0 else h0)"
    by simp
  with assms(2) have h0ne: "h0 \<noteq> []" by (cases "h0 = []") auto
  then have d: "dropWhile (\<lambda>c. c \<noteq> CHR ''/'') (rev p) \<noteq> []" by (simp add: h0_def)
  have "hd (dropWhile (\<lambda>c. c \<noteq> CHR ''/'') (rev p)) = CHR ''/''"
    using hd_dropWhile[OF d] by simp
  with d have last0: "last h0 = CHR ''/''" by (simp add: last_rev h0_def)
  show ?thesis
  proof (cases "list_ex (\<lambda>c. c \<noteq> CHR ''/'') h0")
    case True
    with h h0ne have hr: "h = rstrip_slash h0" by simp
    from rstrip_slash_parts[of h0] obtain k where "h0 = rstrip_slash h0 @ replicate k (CHR ''/'')"
      by blast
    with hr have k: "h0 = h @ replicate k (CHR ''/'')" by simp
    have "last h \<noteq> CHR ''/''" using rstrip_slash_last[of h0] hr assms(2) by simp
    with last0 k have "k \<noteq> 0" by (cases k) auto
    then obtain j where j: "k = Suc j" by (cases k) auto
    have "p = h @ CHR ''/'' # (replicate j (CHR ''/'') @ bn)" using p k j by simp
    then have "split_slash p = split_slash h @ split_slash (replicate j (CHR ''/'') @ bn)"
      using split_slash_join[of h "replicate j (CHR ''/'') @ bn"] by simp
    then have sp: "split_slash p = split_slash h @ replicate j [] @ [bn]"
      by (simp add: split_slash_slashes_then[OF plain])
    have pp: "p = h @ (replicate k (CHR ''/'') @ bn)" using p k by simp
    show ?thesis
      apply (rule exI[of _ "split_slash h"])
      apply (rule exI[of _ 0])
      apply (rule exI[of _ j])
      apply (rule exI[of _ "replicate k (CHR ''/'') @ bn"])
      using sp pp by simp
  next
    case False
    with h have hh: "h = h0" by simp
    from False have "\<forall>x\<in>set h0. x = CHR ''/''" by (auto simp: list_ex_iff)
    from all_same_replicate[OF this] have m: "h0 = replicate (length h0) (CHR ''/'')" .
    have sh: "split_slash h = replicate (Suc (length h0)) []"
      using hh m split_slash_slashes[of "length h0"] by simp
    have "p = replicate (length h0) (CHR ''/'') @ bn" using p m by simp
    then have sp: "split_slash p = replicate (length h0) [] @ [bn]"
      using split_slash_slashes_then[OF plain, of "length h0"] by simp
    have pp: "p = h @ bn" using p hh by simp
    show ?thesis
      apply (rule exI[of _ "[]"])
      apply (rule exI[of _ "Suc (length h0)"])
      apply (rule exI[of _ "length h0"])
      apply (rule exI[of _ bn])
      using sh sp pp by simp
  qed
qed

lemma start_dir_prefix: "h \<noteq> [] \<Longrightarrow> start_dir wd (h @ rest) = start_dir wd h"
  by (cases h) (auto simp: start_dir_def)

lemma walk_split:
  assumes "os_path_split p = (h, bn)" "h \<noteq> []" "bn \<noteq> []"
  shows "walk t (start_dir wd p) (split_slash p) =
     (case walk t (start_dir wd h) (split_slash h) of
        Inl e \<Rightarrow> Inl e | Inr cur \<Rightarrow> walk t cur [bn])"
proof -
  from os_path_split_shape[OF assms] obtain xs j1 j2 rest where
    a: "split_slash h = xs @ replicate j1 []" and b: "split_slash p = xs @ replicate j2 [] @ [bn]"
    and c: "p = h @ rest" by blast
  have "start_dir wd p = start_dir wd h" using c start_dir_prefix[OF assms(2)] by simp
  then show ?thesis using walk_then_last[of t "start_dir wd h" xs j2 bn j1] a b by simp
qed


lemma isdir_walk:
  "os_path_isdir t wd p \<longleftrightarrow>
     p \<noteq> [] \<and> (\<exists>r. walk t (start_dir wd p) (split_slash p) = Inr r \<and> is_dir_at t r)"
  by (auto simp: os_path_isdir_def stat_def is_dir_at_def split: sum.splits option.splits node.splits)

lemma exists_walk:
  "os_path_exists t wd p \<longleftrightarrow>
     p \<noteq> [] \<and> (\<exists>r. walk t (start_dir wd p) (split_slash p) = Inr r \<and> t r \<noteq> None)"
  by (auto simp: os_path_exists_def stat_def split: sum.splits option.splits)

lemma walk_last_dir:
  "walk t s [c] = Inr r \<Longrightarrow> is_dir_at t s \<and> r = step s c"
  by (auto simp: is_dir_at_def split: option.splits node.splits)

lemma walk_dir_empties:
  "is_dir_at t r \<Longrightarrow> walk t r (replicate k []) = Inr r"
  by (induction k) (auto simp: step_def is_dir_at_def split: option.splits node.splits)

lemma walk_empties_result:
  "walk t r (replicate k []) = Inr r' \<Longrightarrow> r' = r"
  by (induction k) (auto simp: step_def split: option.splits node.splits)

lemma isdir_trailing:
  assumes "h \<noteq> []"
  shows "os_path_isdir t wd (h @ replicate k (CHR ''/'')) = os_path_isdir t wd h"
proof -
  have sd: "start_dir wd (h @ replicate k (CHR ''/'')) = start_dir wd h"
    by (rule start_dir_prefix[OF assms])
  show ?thesis
  proof (cases "walk t (start_dir wd h) (split_slash h)")
    case (Inl e)
    then show ?thesis using assms
      by (simp add: isdir_walk sd split_slash_trailing walk_append)
  next
    case (Inr r)
    then show ?thesis using assms walk_dir_empties[of t r k] walk_empties_result[of t r k]
      by (auto simp: isdir_walk sd split_slash_trailing walk_append)
  qed
qed

lemma split_parent_exists:
  assumes "os_path_isdir t wd p" "os_path_split p = (h, bn)" "h \<noteq> []" "bn \<noteq> []"
  shows "os_path_exists t wd h"
proof -
  from assms(1) obtain r where r: "walk t (start_dir wd p) (split_slash p) = Inr r"
    by (auto simp: isdir_walk)
  with walk_split[OF assms(2,3,4), of t wd] obtain cur where
    c: "walk t (start_dir wd h) (split_slash h) = Inr cur" and l: "walk t cur [bn] = Inr r"
    by (auto split: sum.splits)
  from walk_last_dir[OF l] have "t cur \<noteq> None" by (auto simp: is_dir_at_def split: option.splits)
  with c assms(3) show ?thesis by (auto simp: exists_walk)
qed

lemma os_path_split_Nil [simp]: "os_path_split [] = ([], [])"
  by (simp add: os_path_split_def)

lemma os_path_split_trailing:
  assumes "snd (os_path_split p) = []"
  shows "\<exists>k. p = fst (os_path_split p) @ replicate k (CHR ''/'')"
proof -
  define h0 where "h0 = rev (dropWhile (\<lambda>c. c \<noteq> CHR ''/'') (rev p))"
  have p: "p = h0" using os_path_split_parts[of p] assms by (simp add: h0_def)
  have f: "fst (os_path_split p) = (if h0 \<noteq> [] \<and> list_ex (\<lambda>c. c \<noteq> CHR ''/'') h0
                                 then rstrip_slash h0 else h0)"
    unfolding os_path_split_def Let_def h0_def by (simp only: fst_conv)
  show ?thesis
  proof (cases "h0 \<noteq> [] \<and> list_ex (\<lambda>c. c \<noteq> CHR ''/'') h0")
    case True
    with f have "fst (os_path_split p) = rstrip_slash h0" by simp
    with rstrip_slash_parts[of h0] p show ?thesis by simp
  next
    case False
    with f have "fst (os_path_split p) = h0" by simp
    with p have "p = fst (os_path_split p) @ replicate 0 (CHR ''/'')" by simp
    then show ?thesis by blast
  qed
qed

lemma makedirs_parent_exists:
  assumes "os_path_isdir t wd name"
    and "fst (makedirs_parts name) \<noteq> []" and "snd (makedirs_parts name) \<noteq> []"
  shows "os_path_exists t wd (fst (makedirs_parts name))"
proof (cases "snd (os_path_split name) = []")
  case False
  then have "makedirs_parts name = os_path_split name" by (simp add: makedirs_parts_def)
  with assms show ?thesis
    using split_parent_exists[OF assms(1), of "fst (os_path_split name)" "snd (os_path_split name)"]
    by simp
next
  case True
  let ?h = "fst (os_path_split name)"
  from True have mp: "makedirs_parts name = os_path_split ?h" by (simp add: makedirs_parts_def)
  with assms(2) have hne: "?h \<noteq> []" by (cases "?h = []") auto
  from os_path_split_trailing[OF True] obtain k where "name = ?h @ replicate k (CHR ''/'')" by blast
  with assms(1) isdir_trailing[OF hne, of t wd k] have "os_path_isdir t wd ?h" by simp
  from split_parent_exists[OF this, of "fst (os_path_split ?h)" "snd (os_path_split ?h)"]
    assms(2,3) mp show ?thesis by simp
qed

section \<open>Directories that are there\<close>

lemma strip_parts: "\<exists>j. cs = strip_trailing_empty cs @ replicate j []"
proof -
  let ?P = "\<lambda>c. c = ([]::string)"
  have "rev (takeWhile ?P (rev cs) @ dropWhile ?P (rev cs)) = cs" by simp
  then have a: "strip_trailing_empty cs @ rev (takeWhile ?P (rev cs)) = cs"
    by (simp add: strip_trailing_empty_def del: takeWhile_dropWhile_id)
  have "\<forall>x\<in>set (rev (takeWhile ?P (rev cs))). x = []"
    by (auto dest: set_takeWhileD)
  from all_same_replicate[OF this] a show ?thesis by metis
qed

lemma strip_last: "strip_trailing_empty cs \<noteq> [] \<Longrightarrow> last (strip_trailing_empty cs) \<noteq> []"
proof -
  assume a: "strip_trailing_empty cs \<noteq> []"
  let ?d = "dropWhile (\<lambda>c. c = ([]::string)) (rev cs)"
  from a have ne: "?d \<noteq> []" by (simp add: strip_trailing_empty_def)
  then have "hd ?d \<noteq> []" using hd_dropWhile[of "\<lambda>c. c = []" "rev cs"] by simp
  with ne show ?thesis by (simp add: strip_trailing_empty_def last_rev)
qed

lemma os_mkdir_success:
  assumes "os_mkdir t wd name = Inr t'"
  shows "\<exists>xs c j par names.
           name \<noteq> [] \<and> split_slash name = xs @ [c] @ replicate j [] \<and>
           walk t (start_dir wd name) xs = Inr par \<and> t par = Some (Dir names) \<and>
           c \<noteq> [] \<and> c \<noteq> ''.'' \<and> c \<noteq> ''..'' \<and> t (par @ [c]) = None \<and>
           t' = t(par @ [c] \<mapsto> Dir [], par \<mapsto> Dir (names @ [c]))"
proof -
  define comps where "comps = strip_trailing_empty (split_slash name)"
  from assms have ne: "name \<noteq> []" by (auto simp: os_mkdir_def)
  from assms ne have cne: "comps \<noteq> []"
    by (auto simp: os_mkdir_def Let_def comps_def split: if_splits)
  obtain j where j: "split_slash name = comps @ replicate j []"
    using strip_parts[of "split_slash name"] comps_def by auto
  from cne have bl: "comps = butlast comps @ [last comps]" by simp
  from strip_last cne have ln: "last comps \<noteq> []" by (simp add: comps_def)
  from assms ne cne obtain par names where
    w: "walk t (start_dir wd name) (butlast comps) = Inr par" and p: "t par = Some (Dir names)"
    and c1: "last comps \<noteq> ''.''" and c2: "last comps \<noteq> ''..''"
    and n: "t (par @ [last comps]) = None"
    and t': "t' = t(par @ [last comps] \<mapsto> Dir [], par \<mapsto> Dir (names @ [last comps]))"
    unfolding os_mkdir_def Let_def comps_def[symmetric]
    by (auto split: if_splits sum.splits option.splits node.splits)
  have "split_slash name = butlast comps @ [last comps] @ replicate j []" using j bl by simp
  with ne w p ln c1 c2 n t' show ?thesis by blast
qed

lemma step_plain: "c \<noteq> [] \<Longrightarrow> c \<noteq> ''.'' \<Longrightarrow> c \<noteq> ''..'' \<Longrightarrow> step cur c = cur @ [c]"
  by (simp add: step_def)

lemma mkdir_existing:
  assumes "os_path_isdir t wd name"
  shows "\<exists>e. os_mkdir t wd name = Inl e"
proof (cases "os_mkdir t wd name")
  case (Inl e)
  then show ?thesis by blast
next
  case (Inr t')
  from os_mkdir_success[OF this] obtain xs c j par names where
    s: "split_slash name = xs @ [c] @ replicate j []"
    and w: "walk t (start_dir wd name) xs = Inr par" and p: "t par = Some (Dir names)"
    and c: "c \<noteq> []" "c \<noteq> ''.''" "c \<noteq> ''..''" and n: "t (par @ [c]) = None" by blast
  from assms obtain r where r: "walk t (start_dir wd name) (split_slash name) = Inr r"
    and d: "is_dir_at t r" by (auto simp: isdir_walk)
  from r s w p c have "walk t (par @ [c]) (replicate j []) = Inr r"
    by (simp add: walk_append step_plain)
  from walk_empties_result[OF this] d n show ?thesis by (simp add: is_dir_at_def)
qed


lemma makedirs_existing:
  assumes "os_path_isdir t wd name"
  shows "makedirs t wd name = (t, None)"
proof -
  have "\<not> (fst (makedirs_parts name) \<noteq> [] \<and> snd (makedirs_parts name) \<noteq> [] \<and>
           \<not> os_path_exists t wd (fst (makedirs_parts name)))"
    using makedirs_parent_exists[OF assms] by blast
  then have "makedirs t wd name = mkdir_exist_ok t wd name"
    by (subst makedirs.simps) (auto simp: Let_def)
  with mkdir_existing[OF assms] assms show ?thesis
    by (auto simp: mkdir_exist_ok_def)
qed

section \<open>Writing and reading back\<close>

lemma walk_mono:
  assumes "\<And>c. is_dir_at t c \<Longrightarrow> is_dir_at t' c"
  shows "walk t s cs = Inr r \<Longrightarrow> walk t' s cs = Inr r"
proof (induction cs arbitrary: s)
  case Nil
  then show ?case by simp
next
  case (Cons c cs)
  from Cons.prems have d: "is_dir_at t s" and w: "walk t (step s c) cs = Inr r"
    by (auto simp: is_dir_at_def split: option.splits node.splits)
  from assms[OF d] Cons.IH[OF w] show ?case
    by (auto simp: is_dir_at_def split: option.splits node.splits)
qed

lemma split_slash_snoc: "split_slash p = butlast (split_slash p) @ [last (split_slash p)]"
  by simp

lemma walk_snoc:
  "walk t s (split_slash q) =
     (case walk t s (butlast (split_slash q)) of
        Inl e \<Rightarrow> Inl e | Inr m \<Rightarrow> walk t m [last (split_slash q)])"
  using walk_append[of t s "butlast (split_slash q)" "[last (split_slash q)]"] by simp

lemma write_text_success:
  assumes "write_text t wd p content = Inr t'"
  shows "\<exists>xs c par names.
           p \<noteq> [] \<and> split_slash p = xs @ [c] \<and>
           walk t (start_dir wd p) xs = Inr par \<and> t par = Some (Dir names) \<and>
           c \<noteq> [] \<and> c \<noteq> ''.'' \<and> c \<noteq> ''..'' \<and> \<not> is_dir_at t (par @ [c]) \<and>
           t' = (if t (par @ [c]) = None
                 then t(par @ [c] \<mapsto> File content, par \<mapsto> Dir (names @ [c]))
                 else t(par @ [c] \<mapsto> File content))"
proof -
  from assms have ne: "p \<noteq> []" by (auto simp: write_text_def)
  from assms ne obtain par names where
    w: "walk t (start_dir wd p) (butlast (split_slash p)) = Inr par"
    and pd: "t par = Some (Dir names)"
    and c: "last (split_slash p) \<noteq> []" "last (split_slash p) \<noteq> ''.''"
      "last (split_slash p) \<noteq> ''..''"
    and nd: "\<not> is_dir_at t (par @ [last (split_slash p)])"
    and t': "t' = (if t (par @ [last (split_slash p)]) = None
                 then t(par @ [last (split_slash p)] \<mapsto> File content,
                        par \<mapsto> Dir (names @ [last (split_slash p)]))
                 else t(par @ [last (split_slash p)] \<mapsto> File content))"
    unfolding write_text_def Let_def
    by (auto simp: is_dir_at_def split: if_splits sum.splits option.splits node.splits)
  from ne split_slash_snoc[of p] w pd c nd t' show ?thesis by blast
qed

lemma write_text_dirs_kept:
  assumes "write_text t wd p content = Inr t'" "is_dir_at t c"
  shows "is_dir_at t' c"
proof -
  from write_text_success[OF assms(1)] obtain xs x par names where
    pd: "t par = Some (Dir names)" and nd: "\<not> is_dir_at t (par @ [x])"
    and t': "t' = (if t (par @ [x]) = None
                 then t(par @ [x] \<mapsto> File content, par \<mapsto> Dir (names @ [x]))
                 else t(par @ [x] \<mapsto> File content))" by blast
  from assms(2) nd have "c \<noteq> par @ [x]" by auto
  with assms(2) t' show ?thesis by (auto simp: is_dir_at_def)
qed

lemma read_after_write:
  assumes "write_text t wd p content = Inr t'"
  shows "read_bytes t' wd p = Inr content"
proof -
  from write_text_success[OF assms] obtain xs x par names where
    ne: "p \<noteq> []" and s: "split_slash p = xs @ [x]"
    and w: "walk t (start_dir wd p) xs = Inr par" and pd: "t par = Some (Dir names)"
    and x: "x \<noteq> []" "x \<noteq> ''.''" "x \<noteq> ''..''"
    and t': "t' = (if t (par @ [x]) = None
                 then t(par @ [x] \<mapsto> File content, par \<mapsto> Dir (names @ [x]))
                 else t(par @ [x] \<mapsto> File content))" by blast
  have w': "walk t' (start_dir wd p) xs = Inr par"
    using walk_mono[OF write_text_dirs_kept[OF assms] w] by simp
  have "is_dir_at t par" using pd by (simp add: is_dir_at_def)
  from write_text_dirs_kept[OF assms this] have pd': "is_dir_at t' par" .
  have f: "t' (par @ [x]) = Some (File content)" using t' by auto
  from pd' have "walk t' par [x] = Inr (par @ [x])"
    using x by (auto simp: is_dir_at_def step_plain split: option.splits node.splits)
  with w' s have "walk t' (start_dir wd p) (split_slash p) = Inr (par @ [x])"
    by (simp add: walk_append)
  with ne f show ?thesis by (simp add: read_bytes_def stat_def)
qed

lemma read_bytes_walk:
  assumes "read_bytes t wd q = Inr d"
  shows "q \<noteq> [] \<and> (\<exists>r. walk t (start_dir wd q) (split_slash q) = Inr r \<and> t r = Some (File d))"
  using assms
  by (auto simp: read_bytes_def stat_def split: if_splits sum.splits option.splits node.splits)

lemma read_bytes_target:
  assumes "read_bytes t wd q = Inr d"
    and "last (split_slash q) \<noteq> []" "last (split_slash q) \<noteq> ''.''" "last (split_slash q) \<noteq> ''..''"
  shows "\<exists>par names. walk t (start_dir wd q) (butlast (split_slash q)) = Inr par \<and>
           t par = Some (Dir names) \<and> t (par @ [last (split_slash q)]) = Some (File d) \<and> q \<noteq> []"
proof -
  from read_bytes_walk[OF assms(1)] obtain r where ne: "q \<noteq> []"
    and w: "walk t (start_dir wd q) (split_slash q) = Inr r" and f: "t r = Some (File d)" by blast
  obtain par where wp: "walk t (start_dir wd q) (butlast (split_slash q)) = Inr par"
    and l: "walk t par [last (split_slash q)] = Inr r"
  proof (cases "walk t (start_dir wd q) (butlast (split_slash q))")
    case (Inl e)
    with w walk_snoc[of t "start_dir wd q" q] show ?thesis by simp
  next
    case (Inr m)
    with w walk_snoc[of t "start_dir wd q" q] that show ?thesis by simp
  qed
  from walk_last_dir[OF l] assms(2-4) have "is_dir_at t par" "r = par @ [last (split_slash q)]"
    by (auto simp: step_plain)
  with wp f ne show ?thesis by (auto dest: is_dir_atD)
qed

lemma write_existing:
  assumes "read_bytes t wd p = Inr old"
    and "last (split_slash p) \<noteq> []" "last (split_slash p) \<noteq> ''.''" "last (split_slash p) \<noteq> ''..''"
  shows "\<exists>t'. write_text t wd p content = Inr t'"
proof -
  from read_bytes_target[OF assms] obtain par names where
    "walk t (start_dir wd p) (butlast (split_slash p)) = Inr par" "t par = Some (Dir names)"
    "t (par @ [last (split_slash p)]) = Some (File old)" "p \<noteq> []" by blast
  with assms(2-4) show ?thesis by (simp add: write_text_def Let_def)
qed

lemma read_other_after_write:
  assumes "write_text t wd p content = Inr t'" and "read_bytes t wd q = Inr d"
    and "last (split_slash q) \<noteq> last (split_slash p)"
    and "last (split_slash q) \<noteq> []" "last (split_slash q) \<noteq> ''.''" "last (split_slash q) \<noteq> ''..''"
  shows "read_bytes t' wd q = Inr d"
proof -
  from write_text_success[OF assms(1)] obtain xs x par names where
    s: "split_slash p = xs @ [x]" and pd: "t par = Some (Dir names)"
    and t': "t' = (if t (par @ [x]) = None
                 then t(par @ [x] \<mapsto> File content, par \<mapsto> Dir (names @ [x]))
                 else t(par @ [x] \<mapsto> File content))" by blast
  from read_bytes_target[OF assms(2,4,5,6)] obtain parq namesq where
    wq: "walk t (start_dir wd q) (butlast (split_slash q)) = Inr parq"
    and pq: "t parq = Some (Dir namesq)"
    and fq: "t (parq @ [last (split_slash q)]) = Some (File d)" and ne: "q \<noteq> []" by blast
  from s assms(3) have "parq @ [last (split_slash q)] \<noteq> par @ [x]" by simp
  moreover from pd fq have "parq @ [last (split_slash q)] \<noteq> par" by auto
  ultimately have fq': "t' (parq @ [last (split_slash q)]) = Some (File d)" using t' fq by auto
  have wq': "walk t' (start_dir wd q) (butlast (split_slash q)) = Inr parq"
    using walk_mono[OF write_text_dirs_kept[OF assms(1)] wq] by simp
  have "is_dir_at t parq" using pq by (simp add: is_dir_at_def)
  from write_text_dirs_kept[OF assms(1) this] have "is_dir_at t' parq" .
  then have "walk t' parq [last (split_slash q)] = Inr (parq @ [last (split_slash q)])"
    using assms(4-6) by (auto simp: is_dir_at_def step_plain split: option.splits node.splits)
  with wq' have "walk t' (start_dir wd q) (split_slash q) = Inr (parq @ [last (split_slash q)])"
    by (simp only: walk_snoc[of t' "start_dir wd q" q] sum.case)
  with ne fq' show ?thesis by (simp add: read_bytes_def stat_def)
qed

lemma isdir_after_write:
  assumes "write_text t wd p content = Inr t'" "os_path_isdir t wd q"
  shows "os_path_isdir t' wd q"
proof -
  from assms(2) obtain r where "q \<noteq> []" "walk t (start_dir wd q) (split_slash q) = Inr r"
    "is_dir_at t r" by (auto simp: isdir_walk)
  with walk_mono[OF write_text_dirs_kept[OF assms(1)]] write_text_dirs_kept[OF assms(1)]
  show ?thesis by (auto simp: isdir_walk)
qed

section \<open>Joined paths\<close>

lemma plain_hd: "f \<noteq> [] \<Longrightarrow> CHR ''/'' \<notin> set f \<Longrightarrow> hd f \<noteq> CHR ''/''"
  by (cases f) auto

lemma join_plain:
  assumes "path \<noteq> []" "f \<noteq> []" "CHR ''/'' \<notin> set f"
  shows "os_path_join path f = (if last path = CHR ''/'' then path @ f else path @ ''/'' @ f)"
  using assms plain_hd[OF assms(2,3)] by (simp add: os_path_join_def)

lemma join_split:
  assumes "path \<noteq> []" "f \<noteq> []" "CHR ''/'' \<notin> set f"
  shows "split_slash (os_path_join path f) =
           (if last path = CHR ''/'' then butlast (split_slash path) else split_slash path) @ [f]"
proof (cases "last path = CHR ''/''")
  case False
  then show ?thesis
    using join_plain[OF assms] split_slash_join[of path f] split_slash_plain[OF assms(3)] by simp
next
  case True
  with assms(1) have p: "path = butlast path @ ''/''"
    using append_butlast_last_id[of path] by simp
  have "split_slash (butlast path @ CHR ''/'' # []) = split_slash (butlast path) @ [[]]"
    by (simp only: split_slash_join split_slash.simps)
  with p have sp: "butlast (split_slash path) = split_slash (butlast path)"
    by (metis append_Cons append_Nil butlast_snoc)
  have "os_path_join path f = butlast path @ CHR ''/'' # f"
    using join_plain[OF assms] True p by (metis append_Cons append_Nil append_assoc)
  then have "split_slash (os_path_join path f) = split_slash (butlast path) @ [f]"
    using split_slash_join[of "butlast path" f] split_slash_plain[OF assms(3)] by simp
  with sp True show ?thesis by simp
qed

lemma join_last:
  assumes "path \<noteq> []" "f \<noteq> []" "CHR ''/'' \<notin> set f"
  shows "last (split_slash (os_path_join path f)) = f"
    and "butlast (split_slash (os_path_join path f)) =
           (if last path = CHR ''/'' then butlast (split_slash path) else split_slash path)"
  using join_split[OF assms] by simp_all

lemma join_start:
  assumes "path \<noteq> []" "f \<noteq> []" "CHR ''/'' \<notin> set f"
  shows "start_dir wd (os_path_join path f) = start_dir wd path"
  using join_plain[OF assms] start_dir_prefix[OF assms(1)] by (simp add: start_dir_prefix)

lemma join_parent_dir:
  assumes "path \<noteq> []" "f \<noteq> []" "CHR ''/'' \<notin> set f"
    and "walk t (start_dir wd (os_path_join path f)) (butlast (split_slash (os_path_join path f))) = Inr r"
    and "is_dir_at t r"
  shows "os_path_isdir t wd path"
proof (cases "last path = CHR ''/''")
  case False
  with assms show ?thesis
    by (auto simp: isdir_walk join_last(2)[OF assms(1-3)] join_start[OF assms(1-3)])
next
  case True
  with assms have w: "walk t (start_dir wd path) (butlast (split_slash path)) = Inr r"
    by (simp add: join_last(2)[OF assms(1-3)] join_start[OF assms(1-3)])
  from True assms(1) have p: "path = butlast path @ ''/''"
    using append_butlast_last_id[of path] by simp
  have "split_slash (butlast path @ CHR ''/'' # []) = split_slash (butlast path) @ [[]]"
    by (simp only: split_slash_join split_slash.simps)
  with p have "last (split_slash path) = []" by (metis append_Cons append_Nil last_snoc)
  with walk_snoc[of t "start_dir wd path" path] w assms(5)
  have "walk t (start_dir wd path) (split_slash path) = Inr r"
    by (auto simp: step_def is_dir_at_def split: option.splits node.splits)
  with assms(1,5) show ?thesis by (auto simp: isdir_walk)
qed

lemma digit_char_not_slash: "d < 10 \<Longrightarrow> digit_char d \<noteq> CHR ''/''"
proof
  assume d: "d < 10" and "digit_char d = CHR ''/''"
  then have "of_char (char_of (48 + d) :: char) = (of_char (CHR ''/'') :: nat)"
    by (simp add: digit_char_def)
  with d show False by simp
qed

lemma str_nat_hd: "str_nat n \<noteq> [] \<and> hd (str_nat n) \<noteq> CHR ''/''"
proof (induction n rule: str_nat.induct)
  case (1 n)
  show ?case
  proof (cases "n < 10")
    case True
    then show ?thesis by (subst (1 2) str_nat.simps) (simp add: digit_char_not_slash)
  next
    case False
    with 1 show ?thesis by (subst (1 2) str_nat.simps) simp
  qed
qed

lemma dir_name_hd: "dir_name_of n s \<noteq> [] \<and> hd (dir_name_of n s) \<noteq> CHR ''/''"
  using str_nat_hd[of "nat n"] str_nat_hd[of "nat (- n)"]
  by (auto simp: dir_name_of_def str_int_def)

lemma problem_path_eq: "problem_path_of n s = ''Problems/'' @ str_int n @ ''_'' @ replace_spaces s"
  using dir_name_hd[of n s]
  by (simp add: problem_path_of_def os_path_join_def PROBLEMS_DIR_def dir_name_of_def)

lemma learn_name: "''learn.md'' \<noteq> []" "CHR ''/'' \<notin> set ''learn.md''" by simp_all
lemma solution_name: "''solution.py'' \<noteq> []" "CHR ''/'' \<notin> set ''solution.py''" by simp_all

lemma problem_path_ne: "problem_path_of n s \<noteq> []"
  by (simp add: problem_path_eq)

lemma learn_last:
  "last (split_slash (os_path_join (problem_path_of n s) ''learn.md'')) = ''learn.md''"
  by (rule join_last(1)[OF problem_path_ne learn_name])

lemma solution_last:
  "last (split_slash (os_path_join (problem_path_of n s) ''solution.py'')) = ''solution.py''"
  by (rule join_last(1)[OF problem_path_ne solution_name])

section \<open>The scaffolder\<close>

text \<open>
  Claim C6. When the target directory is there and holds regular files \<^verbatim>\<open>learn.md\<close>
  and \<^verbatim>\<open>solution.py\<close>, whatever their content, the scaffolder (button pressed, number
  not zero, name not empty) leaves both files with the fixed templates as content and
  reports success.
\<close>

theorem scaffold_overwrites:
  assumes "problem_number \<noteq> 0" and "problem_name \<noteq> []"
    and "os_path_isdir (fs w) (cwd w) (problem_path_of problem_number problem_name)"
    and "read_bytes (fs w) (cwd w)
           (os_path_join (problem_path_of problem_number problem_name) ''learn.md'') = Inr old_learn"
    and "read_bytes (fs w) (cwd w)
           (os_path_join (problem_path_of problem_number problem_name) ''solution.py'') = Inr old_solution"
  shows "read_bytes (fs (create_new_problem w True problem_number problem_name)) (cwd w)
           (os_path_join (problem_path_of problem_number problem_name) ''learn.md'') = Inr learn_template \<and>
         read_bytes (fs (create_new_problem w True problem_number problem_name)) (cwd w)
           (os_path_join (problem_path_of problem_number problem_name) ''solution.py'') = Inr solution_template \<and>
         page (create_new_problem w True problem_number problem_name) =
           page w @ [St_success (''Created new problem: '' @ dir_name_of problem_number problem_name)]"
proof -
  let ?path = "problem_path_of problem_number problem_name"
  let ?learn = "os_path_join ?path ''learn.md''"
  let ?sol = "os_path_join ?path ''solution.py''"
  have m: "makedirs (fs w) (cwd w) ?path = (fs w, None)"
    by (rule makedirs_existing[OF assms(3)])
  from write_existing[OF assms(4), of learn_template] obtain t2 where
    w1: "write_text (fs w) (cwd w) ?learn learn_template = Inr t2"
    by (auto simp: learn_last)
  have r2: "read_bytes t2 (cwd w) ?sol = Inr old_solution"
    by (rule read_other_after_write[OF w1 assms(5)]) (simp_all add: learn_last solution_last)
  from write_existing[OF r2, of solution_template] obtain t3 where
    w2: "write_text t2 (cwd w) ?sol solution_template = Inr t3"
    by (auto simp: solution_last)
  have l3: "read_bytes t3 (cwd w) ?learn = Inr learn_template"
    by (rule read_other_after_write[OF w2 read_after_write[OF w1]])
      (simp_all add: learn_last solution_last)
  have s3: "read_bytes t3 (cwd w) ?sol = Inr solution_template"
    by (rule read_after_write[OF w2])
  have "create_new_problem w True problem_number problem_name =
          show_element (St_success (''Created new problem: '' @ dir_name_of problem_number problem_name))
            (w\<lparr>fs := t3\<rparr>)"
    using assms(1,2) m w1 w2 by (simp add: create_new_problem_def Let_def problem_path_of_def)
  with l3 s3 show ?thesis by (simp add: show_element_def)
qed

lemma old_path: "problem_path_of 7 ''old'' = ''Problems/7_old''"
  by code_simp

lemma old_isdir: "os_path_isdir (fs old_problem_world) (cwd old_problem_world) (problem_path_of 7 ''old'')"
  by code_simp

lemma old_learn: "read_bytes (fs old_problem_world) (cwd old_problem_world)
    (os_path_join (problem_path_of 7 ''old'') ''learn.md'') = Inr ''my notes''"
  by code_simp

lemma old_solution: "read_bytes (fs old_problem_world) (cwd old_problem_world)
    (os_path_join (problem_path_of 7 ''old'') ''solution.py'') = Inr ''print(1)''"
  by code_simp

theorem scaffold_overwrites_witness:
  "(7::int) \<noteq> 0 \<and> ''old'' \<noteq> [] \<and>
   os_path_isdir (fs old_problem_world) (cwd old_problem_world) (problem_path_of 7 ''old'') \<and>
   read_bytes (fs old_problem_world) (cwd old_problem_world)
     (os_path_join (problem_path_of 7 ''old'') ''learn.md'') = Inr ''my notes'' \<and>
   read_bytes (fs old_problem_world) (cwd old_problem_world)
     (os_path_join (problem_path_of 7 ''old'') ''solution.py'') = Inr ''print(1)'' \<and>
   read_bytes (fs (create_new_problem old_problem_world True 7 ''old'')) (cwd old_problem_world)
     (os_path_join (problem_path_of 7 ''old'') ''learn.md'') = Inr learn_template \<and>
   read_bytes (fs (create_new_problem old_problem_world True 7 ''old'')) (cwd old_problem_world)
     (os_path_join (problem_path_of 7 ''old'') ''solution.py'') = Inr solution_template \<and>
   page (create_new_problem old_problem_world True 7 ''old'') =
     page old_problem_world @ [St_success (''Created new problem: '' @ dir_name_of 7 ''old'')]"
  using scaffold_overwrites[of 7 "''old''" old_problem_world "''my notes''" "''print(1)''"]
    old_isdir old_learn old_solution
  by simp

lemma create_success:
  assumes "page (create_new_problem w True n s) = page w @ [St_success msg]"
  shows "\<exists>t1 t2 t3. makedirs (fs w) (cwd w) (problem_path_of n s) = (t1, None) \<and>
           write_text t1 (cwd w) (os_path_join (problem_path_of n s) ''learn.md'') learn_template = Inr t2 \<and>
           write_text t2 (cwd w) (os_path_join (problem_path_of n s) ''solution.py'') solution_template = Inr t3 \<and>
           create_new_problem w True n s =
             show_element (St_success (''Created new problem: '' @ dir_name_of n s)) (w\<lparr>fs := t3\<rparr>)"
  using assms
  by (auto simp: create_new_problem_def Let_def problem_path_of_def show_element_def create_error_def
      split: if_splits prod.splits option.splits sum.splits)

lemma created_in_place:
  assumes "page (create_new_problem w True n s) = page w @ [St_success msg]"
  shows "msg = ''Created new problem: '' @ dir_name_of n s \<and>
         os_path_isdir (fs (create_new_problem w True n s)) (cwd w) (problem_path_of n s) \<and>
         read_bytes (fs (create_new_problem w True n s)) (cwd w)
           (os_path_join (problem_path_of n s) ''learn.md'') = Inr learn_template \<and>
         read_bytes (fs (create_new_problem w True n s)) (cwd w)
           (os_path_join (problem_path_of n s) ''solution.py'') = Inr solution_template"
proof -
  let ?path = "problem_path_of n s"
  let ?learn = "os_path_join ?path ''learn.md''"
  let ?sol = "os_path_join ?path ''solution.py''"
  from create_success[OF assms] obtain t1 t2 t3 where
    w1: "write_text t1 (cwd w) ?learn learn_template = Inr t2"
    and w2: "write_text t2 (cwd w) ?sol solution_template = Inr t3"
    and c: "create_new_problem w True n s =
             show_element (St_success (''Created new problem: '' @ dir_name_of n s)) (w\<lparr>fs := t3\<rparr>)"
    by blast
  from assms c have m: "msg = ''Created new problem: '' @ dir_name_of n s"
    by (simp add: show_element_def)
  from write_text_success[OF w2] obtain xs x par names where
    sp: "split_slash ?sol = xs @ [x]" and wk: "walk t2 (start_dir (cwd w) ?sol) xs = Inr par"
    and pd: "t2 par = Some (Dir names)" by blast
  from sp have "xs = butlast (split_slash ?sol)" by simp
  with wk pd have "os_path_isdir t2 (cwd w) ?path"
    using join_parent_dir[OF problem_path_ne solution_name, of t2 "cwd w" n s par]
    by (simp add: is_dir_at_def)
  from isdir_after_write[OF w2 this] have d: "os_path_isdir t3 (cwd w) ?path" .
  have l3: "read_bytes t3 (cwd w) ?learn = Inr learn_template"
    by (rule read_other_after_write[OF w2 read_after_write[OF w1]])
      (simp_all add: learn_last solution_last)
  have s3: "read_bytes t3 (cwd w) ?sol = Inr solution_template"
    by (rule read_after_write[OF w2])
  from m d l3 s3 c show ?thesis by (simp add: show_element_def)
qed

lemma created_number:
  assumes "page (create_new_problem w True n s) = page w @ [St_success msg]"
  shows "n \<noteq> 0"
  using assms by (auto simp: create_new_problem_def split: if_splits)

lemma of_char_digit_char: "d < 10 \<Longrightarrow> (of_char (digit_char d) :: nat) = 48 + d"
  by (simp add: digit_char_def)

lemma foldl_decimal_snoc:
  "foldl (\<lambda>a c. 10 * a + ((of_char c :: nat) - 48)) 0 (xs @ [c]) =
   10 * foldl (\<lambda>a c. 10 * a + ((of_char c :: nat) - 48)) 0 xs + (of_char c - 48)"
  by simp

lemma str_nat_digits:
  "str_nat n \<noteq> [] \<and>
   (\<forall>c\<in>set (str_nat n). 48 \<le> (of_char c :: nat) \<and> (of_char c :: nat) \<le> 57) \<and>
   foldl (\<lambda>a c. 10 * a + ((of_char c :: nat) - 48)) 0 (str_nat n) = n \<and>
   (n \<noteq> 0 \<longrightarrow> hd (str_nat n) \<noteq> CHR ''0'')"
proof (induction n rule: str_nat.induct)
  case (1 n)
  show ?case
  proof (cases "n < 10")
    case True
    then have e: "str_nat n = [digit_char n]" by (subst str_nat.simps) simp
    have "n \<noteq> 0 \<Longrightarrow> digit_char n \<noteq> CHR ''0''"
    proof
      assume "n \<noteq> 0" and "digit_char n = CHR ''0''"
      then have "(of_char (digit_char n) :: nat) = of_char (CHR ''0'')" by simp
      with True \<open>n \<noteq> 0\<close> show False by (simp add: of_char_digit_char)
    qed
    with True e show ?thesis by (simp add: of_char_digit_char)
  next
    case False
    then have e: "str_nat n = str_nat (n div 10) @ [digit_char (n mod 10)]"
      by (subst str_nat.simps) simp
    from False have nz: "n div 10 \<noteq> 0" by simp
    from 1[OF False] have ih: "str_nat (n div 10) \<noteq> []"
      "\<forall>c\<in>set (str_nat (n div 10)). 48 \<le> (of_char c :: nat) \<and> (of_char c :: nat) \<le> 57"
      "foldl (\<lambda>a c. 10 * a + ((of_char c :: nat) - 48)) 0 (str_nat (n div 10)) = n div 10"
      "hd (str_nat (n div 10)) \<noteq> CHR ''0''"
      using nz by simp_all
    have m: "n mod 10 < 10" by simp
    have a: "str_nat n \<noteq> []" using e by simp
    have b: "\<forall>c\<in>set (str_nat n). 48 \<le> (of_char c :: nat) \<and> (of_char c :: nat) \<le> 57"
      using ih(2) e by (simp add: of_char_digit_char[OF m])
    have c: "foldl (\<lambda>a c. 10 * a + ((of_char c :: nat) - 48)) 0 (str_nat n) = n"
      unfolding e foldl_decimal_snoc ih(3) by (simp add: of_char_digit_char[OF m])
    have d: "hd (str_nat n) \<noteq> CHR ''0''" using e ih(1,4) by simp
    from a b c d show ?thesis by simp
  qed
qed

text \<open>
  Claim C10. Whenever the scaffolder reports success for a number \<open>n\<close> and a name \<open>s\<close>,
  the path it made is \<^verbatim>\<open>Problems/\<close>, the decimal digits of \<open>n\<close> (after a minus sign
  when \<open>n\<close> is negative; at least one digit, the first one not zero), an underscore and
  \<open>s\<close> with each space replaced by an underscore and every other character, a separator
  too, as it is: a directory is at that path and the two templates are in it. The
  message shown names the directory the same way.
\<close>

theorem scaffold_path:
  assumes "page (create_new_problem w True n s) = page w @ [St_success msg]"
  shows "\<exists>ds. ds \<noteq> [] \<and>
           (\<forall>c\<in>set ds. 48 \<le> (of_char c :: nat) \<and> (of_char c :: nat) \<le> 57) \<and>
           hd ds \<noteq> CHR ''0'' \<and>
           int (foldl (\<lambda>a c. 10 * a + ((of_char c :: nat) - 48)) 0 ds) = \<bar>n\<bar> \<and>
           msg = ''Created new problem: '' @ (if n < 0 then ''-'' else []) @ ds @ ''_'' @
                 map (\<lambda>c. if c = CHR '' '' then CHR ''_'' else c) s \<and>
           os_path_isdir (fs (create_new_problem w True n s)) (cwd w)
             (''Problems/'' @ (if n < 0 then ''-'' else []) @ ds @ ''_'' @
              map (\<lambda>c. if c = CHR '' '' then CHR ''_'' else c) s) \<and>
           read_bytes (fs (create_new_problem w True n s)) (cwd w)
             (os_path_join
                (''Problems/'' @ (if n < 0 then ''-'' else []) @ ds @ ''_'' @
                 map (\<lambda>c. if c = CHR '' '' then CHR ''_'' else c) s)
                ''learn.md'') = Inr learn_template \<and>
           read_bytes (fs (create_new_problem w True n s)) (cwd w)
             (os_path_join
                (''Problems/'' @ (if n < 0 then ''-'' else []) @ ds @ ''_'' @
                 map (\<lambda>c. if c = CHR '' '' then CHR ''_'' else c) s)
                ''solution.py'') = Inr solution_template"
proof -
  define ds where "ds = str_nat (nat \<bar>n\<bar>)"
  from created_number[OF assms] have nz: "nat \<bar>n\<bar> \<noteq> 0" by simp
  from str_nat_digits[of "nat \<bar>n\<bar>"] nz have d:
    "ds \<noteq> []" "\<forall>c\<in>set ds. 48 \<le> (of_char c :: nat) \<and> (of_char c :: nat) \<le> 57"
    "hd ds \<noteq> CHR ''0''"
    "int (foldl (\<lambda>a c. 10 * a + ((of_char c :: nat) - 48)) 0 ds) = \<bar>n\<bar>"
    by (simp_all add: ds_def)
  have si: "str_int n = (if n < 0 then ''-'' else []) @ ds"
    by (simp add: str_int_def ds_def)
  have dn: "dir_name_of n s = (if n < 0 then ''-'' else []) @ ds @ ''_'' @
                 map (\<lambda>c. if c = CHR '' '' then CHR ''_'' else c) s"
    by (simp add: dir_name_of_def si replace_spaces_def)
  have pp: "problem_path_of n s = ''Problems/'' @ (if n < 0 then ''-'' else []) @ ds @ ''_'' @
                 map (\<lambda>c. if c = CHR '' '' then CHR ''_'' else c) s"
    by (simp add: problem_path_eq si replace_spaces_def)
  from created_in_place[OF assms] have c:
    "msg = ''Created new problem: '' @ dir_name_of n s"
    "os_path_isdir (fs (create_new_problem w True n s)) (cwd w) (problem_path_of n s)"
    "read_bytes (fs (create_new_problem w True n s)) (cwd w)
           (os_path_join (problem_path_of n s) ''learn.md'') = Inr learn_template"
    "read_bytes (fs (create_new_problem w True n s)) (cwd w)
           (os_path_join (problem_path_of n s) ''solution.py'') = Inr solution_template"
    by simp_all
  show ?thesis
    apply (rule exI[of _ ds])
    apply (intro conjI)
           apply (rule d(1))
          apply (rule d(2))
         apply (rule d(3))
        apply (rule d(4))
       apply (rule c(1)[unfolded dn])
      apply (rule c(2)[unfolded pp])
     apply (rule c(3)[unfolded pp])
    apply (rule c(4)[unfolded pp])
    done
qed

lemma dfs_success:
  "page (create_new_problem bare_world True 7 ''Graphs/DFS basics'') =
     page bare_world @ [St_success ''Created new problem: 7_Graphs/DFS_basics'']"
  by code_simp

lemma dfs_created:
  "os_path_isdir (fs (create_new_problem bare_world True 7 ''Graphs/DFS basics''))
     (cwd bare_world) ''Problems/7_Graphs/DFS_basics''"
  "read_bytes (fs (create_new_problem bare_world True 7 ''Graphs/DFS basics''))
     (cwd bare_world) ''Problems/7_Graphs/DFS_basics/learn.md'' = Inr learn_template"
  "read_bytes (fs (create_new_problem bare_world True 7 ''Graphs/DFS basics''))
     (cwd bare_world) ''Problems/7_Graphs/DFS_basics/solution.py'' = Inr solution_template"
  by code_simp+

theorem scaffold_path_witness:
  "page (create_new_problem bare_world True 7 ''Graphs/DFS basics'') =
     page bare_world @ [St_success ''Created new problem: 7_Graphs/DFS_basics''] \<and>
   os_path_isdir (fs (create_new_problem bare_world True 7 ''Graphs/DFS basics''))
     (cwd bare_world) ''Problems/7_Graphs/DFS_basics'' \<and>
   read_bytes (fs (create_new_problem bare_world True 7 ''Graphs/DFS basics''))
     (cwd bare_world) ''Problems/7_Graphs/DFS_basics/learn.md'' = Inr learn_template \<and>
   read_bytes (fs (create_new_problem bare_world True 7 ''Graphs/DFS basics''))
     (cwd bare_world) ''Problems/7_Graphs/DFS_basics/solution.py'' = Inr solution_template"
proof -
  from scaffold_path[OF dfs_success] obtain ds where
    "''Created new problem: 7_Graphs/DFS_basics'' =
       ''Created new problem: '' @ (if (7::int) < 0 then ''-'' else []) @ ds @ ''_'' @
       map (\<lambda>c. if c = CHR '' '' then CHR ''_'' else c) ''Graphs/DFS basics''"
    by blast
  with dfs_success dfs_created show ?thesis by simp
qed

lemma two_sum_name: "dir_name_of 42 ''Two Sum'' = ''42_Two_Sum''"
  by code_simp

lemma two_sum_path: "problem_path_of 42 ''Two Sum'' = ''Problems/42_Two_Sum''"
  by code_simp

lemma split_two_sum:
  "split_slash ''Problems'' = [''Problems'']"
  "split_slash ''Problems/42_Two_Sum'' = [''Problems'', ''42_Two_Sum'']"
  "split_slash ''Problems/42_Two_Sum/learn.md'' = [''Problems'', ''42_Two_Sum'', ''learn.md'']"
  "split_slash ''Problems/42_Two_Sum/solution.py'' = [''Problems'', ''42_Two_Sum'', ''solution.py'']"
  by code_simp+

lemma parts_two_sum: "makedirs_parts ''Problems/42_Two_Sum'' = (''Problems'', ''42_Two_Sum'')"
  by code_simp

lemma joins_two_sum:
  "os_path_join ''Problems/42_Two_Sum'' ''learn.md'' = ''Problems/42_Two_Sum/learn.md''"
  "os_path_join ''Problems/42_Two_Sum'' ''solution.py'' = ''Problems/42_Two_Sum/solution.py''"
  by code_simp+

lemma two_sum_state:
  assumes "os_path_isdir t wd ''Problems''"
    and "\<not> os_path_exists t wd ''Problems/42_Two_Sum''"
  shows "\<exists>n0 n1. t wd = Some (Dir n0) \<and> t (wd @ [''Problems'']) = Some (Dir n1) \<and>
           t (wd @ [''Problems'', ''42_Two_Sum'']) = None"
proof -
  from assms(1) obtain r where "walk t wd [''Problems''] = Inr r" "is_dir_at t r"
    by (auto simp: isdir_walk split_two_sum start_dir_def)
  then obtain n0 n1 where a: "t wd = Some (Dir n0)" and b: "t (wd @ [''Problems'']) = Some (Dir n1)"
    by (auto simp: step_def is_dir_at_def split: option.splits node.splits)
  with assms(2) have "t (wd @ [''Problems'', ''42_Two_Sum'']) = None"
    by (auto simp: exists_walk split_two_sum start_dir_def step_def)
  with a b show ?thesis by blast
qed

lemma two_sum_created:
  assumes a: "t wd = Some (Dir n0)" and b: "t (wd @ [''Problems'']) = Some (Dir n1)"
    and c: "t (wd @ [''Problems'', ''42_Two_Sum'']) = None"
  shows "makedirs t wd ''Problems/42_Two_Sum'' =
           (t(wd @ [''Problems'', ''42_Two_Sum''] \<mapsto> Dir [],
              wd @ [''Problems''] \<mapsto> Dir (n1 @ [''42_Two_Sum''])), None)"
proof -
  have e: "os_path_exists t wd ''Problems''"
    using a b by (simp add: exists_walk split_two_sum start_dir_def step_def)
  have s: "strip_trailing_empty [''Problems'', ''42_Two_Sum''] = [''Problems'', ''42_Two_Sum'']"
    by (simp add: strip_trailing_empty_def)
  have "os_mkdir t wd ''Problems/42_Two_Sum'' =
          Inr (t(wd @ [''Problems'', ''42_Two_Sum''] \<mapsto> Dir [],
                 wd @ [''Problems''] \<mapsto> Dir (n1 @ [''42_Two_Sum''])))"
    using a b c by (simp add: os_mkdir_def split_two_sum s start_dir_def step_def Let_def)
  with e show ?thesis
    by (subst makedirs.simps) (simp add: parts_two_sum mkdir_exist_ok_def Let_def)
qed


lemma two_sum_learn_written:
  assumes a: "t wd = Some (Dir n0)" and b: "t (wd @ [''Problems'']) = Some (Dir n1)"
    and c: "t (wd @ [''Problems'', ''42_Two_Sum'']) = Some (Dir n2)"
    and d: "t (wd @ [''Problems'', ''42_Two_Sum'', ''learn.md'']) = None"
  shows "write_text t wd ''Problems/42_Two_Sum/learn.md'' content =
           Inr (t(wd @ [''Problems'', ''42_Two_Sum'', ''learn.md''] \<mapsto> File content,
                  wd @ [''Problems'', ''42_Two_Sum''] \<mapsto> Dir (n2 @ [''learn.md''])))"
  using a b c d by (simp add: write_text_def split_two_sum start_dir_def step_def Let_def)

lemma two_sum_solution_written:
  assumes a: "t wd = Some (Dir n0)" and b: "t (wd @ [''Problems'']) = Some (Dir n1)"
    and c: "t (wd @ [''Problems'', ''42_Two_Sum'']) = Some (Dir n2)"
    and d: "t (wd @ [''Problems'', ''42_Two_Sum'', ''solution.py'']) = None"
  shows "write_text t wd ''Problems/42_Two_Sum/solution.py'' content =
           Inr (t(wd @ [''Problems'', ''42_Two_Sum'', ''solution.py''] \<mapsto> File content,
                  wd @ [''Problems'', ''42_Two_Sum''] \<mapsto> Dir (n2 @ [''solution.py''])))"
  using a b c d by (simp add: write_text_def split_two_sum start_dir_def step_def Let_def)

lemma two_sum_succeeds:
  assumes "os_path_isdir (fs w) (cwd w) ''Problems''"
    and "\<not> os_path_exists (fs w) (cwd w) ''Problems/42_Two_Sum''"
    and "well_formed (fs w)"
  shows "page (create_new_problem w True 42 ''Two Sum'') =
           page w @ [St_success ''Created new problem: 42_Two_Sum'']"
proof -
  from two_sum_state[OF assms(1,2)] obtain n0 n1 where
    a: "fs w (cwd w) = Some (Dir n0)" and b: "fs w (cwd w @ [''Problems'']) = Some (Dir n1)"
    and c: "fs w (cwd w @ [''Problems'', ''42_Two_Sum'']) = None" by blast
  have nl: "fs w (cwd w @ [''Problems'', ''42_Two_Sum'', ''learn.md'']) = None"
    using assms(3) c
    by (auto simp: well_formed_def is_dir_at_def
        dest!: spec[of _ "cwd w @ [''Problems'', ''42_Two_Sum'']"] spec[of _ "''learn.md''"])
  have ns: "fs w (cwd w @ [''Problems'', ''42_Two_Sum'', ''solution.py'']) = None"
    using assms(3) c
    by (auto simp: well_formed_def is_dir_at_def
        dest!: spec[of _ "cwd w @ [''Problems'', ''42_Two_Sum'']"] spec[of _ "''solution.py''"])
  define t1 where "t1 = (fs w)(cwd w @ [''Problems'', ''42_Two_Sum''] \<mapsto> Dir [],
              cwd w @ [''Problems''] \<mapsto> Dir (n1 @ [''42_Two_Sum'']))"
  define t2 where "t2 = t1(cwd w @ [''Problems'', ''42_Two_Sum'', ''learn.md''] \<mapsto> File learn_template,
                  cwd w @ [''Problems'', ''42_Two_Sum''] \<mapsto> Dir ([] @ [''learn.md'']))"
  define t3 where "t3 = t2(cwd w @ [''Problems'', ''42_Two_Sum'', ''solution.py''] \<mapsto> File solution_template,
                  cwd w @ [''Problems'', ''42_Two_Sum''] \<mapsto> Dir ([''learn.md''] @ [''solution.py'']))"
  have m: "makedirs (fs w) (cwd w) ''Problems/42_Two_Sum'' = (t1, None)"
    unfolding t1_def by (rule two_sum_created[OF a b c])
  have w1: "write_text t1 (cwd w) ''Problems/42_Two_Sum/learn.md'' learn_template = Inr t2"
    unfolding t2_def
    by (rule two_sum_learn_written[where ?n0.0 = n0 and ?n1.0 = "n1 @ [''42_Two_Sum'']"])
       (simp_all add: t1_def a nl)
  have w2: "write_text t2 (cwd w) ''Problems/42_Two_Sum/solution.py'' solution_template = Inr t3"
    unfolding t3_def
    by (rule two_sum_solution_written[where ?n0.0 = n0 and ?n1.0 = "n1 @ [''42_Two_Sum'']"])
       (simp_all add: t2_def t1_def a ns)
  have "create_new_problem w True 42 ''Two Sum'' =
          show_element (St_success (''Created new problem: '' @ ''42_Two_Sum'')) (w\<lparr>fs := t3\<rparr>)"
    using m w1 w2 two_sum_path
    by (simp add: create_new_problem_def Let_def two_sum_name joins_two_sum
        problem_path_of_def)
  then show ?thesis by (simp add: show_element_def)
qed

text \<open>
  Claim C7. Whenever the scaffolder, called with the number 42 and the name
  \<^verbatim>\<open>Two Sum\<close>, reports success, the message names \<^verbatim>\<open>42_Two_Sum\<close>, a directory is at
  \<^verbatim>\<open>Problems/42_Two_Sum\<close>, the file \<^verbatim>\<open>learn.md\<close> in it starts with
  \<^verbatim>\<open># Problem Description\<close> and the file \<^verbatim>\<open>solution.py\<close> in it contains
  \<^verbatim>\<open>def solution():\<close>. And the call does report success at least when the file system
  is well formed, \<^verbatim>\<open>Problems\<close> is a directory and nothing is at
  \<^verbatim>\<open>Problems/42_Two_Sum\<close>.
\<close>

theorem scaffold_two_sum:
  "(page (create_new_problem w True 42 ''Two Sum'') = page w @ [St_success msg] \<longrightarrow>
      msg = ''Created new problem: 42_Two_Sum'' \<and>
      os_path_isdir (fs (create_new_problem w True 42 ''Two Sum'')) (cwd w)
        ''Problems/42_Two_Sum'' \<and>
      (\<exists>learn. read_bytes (fs (create_new_problem w True 42 ''Two Sum'')) (cwd w)
                 ''Problems/42_Two_Sum/learn.md'' = Inr learn \<and>
               prefix ''# Problem Description'' learn) \<and>
      (\<exists>solution. read_bytes (fs (create_new_problem w True 42 ''Two Sum'')) (cwd w)
                    ''Problems/42_Two_Sum/solution.py'' = Inr solution \<and>
                  sublist ''def solution():'' solution)) \<and>
   (os_path_isdir (fs w) (cwd w) ''Problems'' \<and>
    \<not> os_path_exists (fs w) (cwd w) ''Problems/42_Two_Sum'' \<and> well_formed (fs w) \<longrightarrow>
      page (create_new_problem w True 42 ''Two Sum'') =
        page w @ [St_success ''Created new problem: 42_Two_Sum''])"
proof (intro conjI impI)
  assume a: "page (create_new_problem w True 42 ''Two Sum'') = page w @ [St_success msg]"
  from created_in_place[OF a] have c:
    "msg = ''Created new problem: '' @ ''42_Two_Sum''"
    "os_path_isdir (fs (create_new_problem w True 42 ''Two Sum'')) (cwd w) ''Problems/42_Two_Sum''"
    "read_bytes (fs (create_new_problem w True 42 ''Two Sum'')) (cwd w)
       ''Problems/42_Two_Sum/learn.md'' = Inr learn_template"
    "read_bytes (fs (create_new_problem w True 42 ''Two Sum'')) (cwd w)
       ''Problems/42_Two_Sum/solution.py'' = Inr solution_template"
    unfolding two_sum_name two_sum_path joins_two_sum by simp_all
  from c(1) show "msg = ''Created new problem: 42_Two_Sum''" by simp
  from c(2) show "os_path_isdir (fs (create_new_problem w True 42 ''Two Sum'')) (cwd w)
        ''Problems/42_Two_Sum''" .
  have "prefix ''# Problem Description'' learn_template"
    by (simp add: learn_template_def)
  with c(3) show "\<exists>learn. read_bytes (fs (create_new_problem w True 42 ''Two Sum'')) (cwd w)
                 ''Problems/42_Two_Sum/learn.md'' = Inr learn \<and>
               prefix ''# Problem Description'' learn" by blast
  have "sublist ''def solution():'' solution_template"
    by (simp add: solution_template_def sublist_Cons_right prefix_def)
  with c(4) show "\<exists>solution. read_bytes (fs (create_new_problem w True 42 ''Two Sum'')) (cwd w)
                    ''Problems/42_Two_Sum/solution.py'' = Inr solution \<and>
                  sublist ''def solution():'' solution" by blast
next
  assume "os_path_isdir (fs w) (cwd w) ''Problems'' \<and>
    \<not> os_path_exists (fs w) (cwd w) ''Problems/42_Two_Sum'' \<and> well_formed (fs w)"
  then show "page (create_new_problem w True 42 ''Two Sum'') =
        page w @ [St_success ''Created new problem: 42_Two_Sum'']"
    using two_sum_succeeds by blast
qed

lemma snoc_eq_2: "cs @ [c] = [a, b] \<longleftrightarrow> cs = [a] \<and> c = b"
  by (cases cs) auto
lemma snoc_eq_1: "cs @ [c] = [a] \<longleftrightarrow> cs = [] \<and> c = a"
  by (cases cs) auto

lemma fresh_world_facts:
  "os_path_isdir (fs fresh_world) (cwd fresh_world) ''Problems''"
  "\<not> os_path_exists (fs fresh_world) (cwd fresh_world) ''Problems/42_Two_Sum''"
  by code_simp+

lemma fresh_world_well_formed: "well_formed (fs fresh_world)"
  unfolding well_formed_def fresh_world_def is_dir_at_def
  by (auto simp: snoc_eq_1 snoc_eq_2 split: if_splits)

lemma bare_two_sum:
  "page (create_new_problem bare_world True 42 ''Two Sum'') =
     page bare_world @ [St_success ''Created new problem: 42_Two_Sum'']"
  by code_simp

lemma bare_two_sum_files:
  "read_bytes (fs (create_new_problem bare_world True 42 ''Two Sum'')) (cwd bare_world)
     ''Problems/42_Two_Sum/learn.md'' =
     Inr (''# Problem Description'' @ [LF, LF] @ ''## Overview'' @ [LF, LF] @ ''## Examples'' @ [LF])"
  "read_bytes (fs (create_new_problem bare_world True 42 ''Two Sum'')) (cwd bare_world)
     ''Problems/42_Two_Sum/solution.py'' =
     Inr (''def solution():'' @ [LF] @ ''    pass'' @ [LF, LF] @ ''# Test cases'' @ [LF])"
  by code_simp+

theorem scaffold_two_sum_witness:
  "page (create_new_problem bare_world True 42 ''Two Sum'') =
     page bare_world @ [St_success ''Created new problem: 42_Two_Sum''] \<and>
   os_path_isdir (fs (create_new_problem bare_world True 42 ''Two Sum'')) (cwd bare_world)
     ''Problems/42_Two_Sum'' \<and>
   read_bytes (fs (create_new_problem bare_world True 42 ''Two Sum'')) (cwd bare_world)
     ''Problems/42_Two_Sum/learn.md'' =
     Inr (''# Problem Description'' @ [LF, LF] @ ''## Overview'' @ [LF, LF] @ ''## Examples'' @ [LF]) \<and>
   read_bytes (fs (create_new_problem bare_world True 42 ''Two Sum'')) (cwd bare_world)
     ''Problems/42_Two_Sum/solution.py'' =
     Inr (''def solution():'' @ [LF] @ ''    pass'' @ [LF, LF] @ ''# Test cases'' @ [LF]) \<and>
   os_path_isdir (fs fresh_world) (cwd fresh_world) ''Problems'' \<and>
   \<not> os_path_exists (fs fresh_world) (cwd fresh_world) ''Problems/42_Two_Sum'' \<and>
   well_formed (fs fresh_world) \<and>
   page (create_new_problem fresh_world True 42 ''Two Sum'') =
     page fresh_world @ [St_success ''Created new problem: 42_Two_Sum'']"
  using scaffold_two_sum[of bare_world "''Created new problem: 42_Two_Sum''"]
    scaffold_two_sum[of fresh_world "''Created new problem: 42_Two_Sum''"]
    bare_two_sum bare_two_sum_files fresh_world_facts fresh_world_well_formed
  by blast

section \<open>Saving and loading\<close>







section \<open>The absolute location of a notebook\<close>

lemma rstrip_slash_id: "s \<noteq> [] \<Longrightarrow> last s \<noteq> CHR ''/'' \<Longrightarrow> rstrip_slash s = s"
proof -
  assume "s \<noteq> []" and "last s \<noteq> CHR ''/''"
  then have "hd (rev s) \<noteq> CHR ''/''" "rev s \<noteq> []" by (simp_all add: hd_rev)
  then have "dropWhile (\<lambda>c. c = CHR ''/'') (rev s) = rev s" by (cases "rev s") auto
  then show ?thesis by (simp add: rstrip_slash_def)
qed

lemma cwd_path_last:
  assumes "list_all plain wd" "wd \<noteq> []"
  shows "concat (map ((#) CHR ''/'') wd) \<noteq> [] \<and>
         last (concat (map ((#) CHR ''/'') wd)) \<noteq> CHR ''/'' \<and>
         hd (concat (map ((#) CHR ''/'') wd)) = CHR ''/''"
  using assms
proof (induction wd rule: rev_induct)
  case Nil
  then show ?case by simp
next
  case (snoc x xs)
  from snoc.prems have px: "plain x" by simp
  then have ne: "x \<noteq> []" and ns: "CHR ''/'' \<notin> set x" by (simp_all add: plain_def)
  from last_in_set[OF ne] ns have "last x \<noteq> CHR ''/''" by auto
  with ne show ?case by (cases xs) auto
qed

lemma cwd_path_rstrip:
  assumes "list_all plain wd"
  shows "rstrip_slash (if wd = [] then ''/'' else concat (map ((#) CHR ''/'') wd)) =
         concat (map ((#) CHR ''/'') wd)"
proof (cases "wd = []")
  case True
  then show ?thesis by (simp add: rstrip_slash_def)
next
  case False
  with cwd_path_last[OF assms] show ?thesis by (simp add: rstrip_slash_id)
qed

lemma split_plain_then:
  assumes "plain c" "list_all plain cs"
  shows "split_slash (c @ concat (map ((#) CHR ''/'') cs)) = c # cs"
  using assms
proof (induction cs arbitrary: c)
  case Nil
  then show ?case by (simp add: split_slash_plain plain_def)
next
  case (Cons d ds)
  have "split_slash (c @ CHR ''/'' # (d @ concat (map ((#) CHR ''/'') ds))) =
        split_slash c @ split_slash (d @ concat (map ((#) CHR ''/'') ds))"
    by (rule split_slash_join)
  with Cons show ?case by (simp add: split_slash_plain plain_def)
qed

lemma split_cwd_path:
  assumes "list_all plain wd"
  shows "split_slash (concat (map ((#) CHR ''/'') wd)) = [] # wd"
proof (cases wd)
  case Nil
  then show ?thesis by simp
next
  case (Cons c cs)
  with assms split_plain_then[of c cs] show ?thesis by simp
qed

lemma walk_from_root:
  assumes "list_all plain wd" "walk t [] wd = Inr wd" "is_dir_at t wd"
  shows "walk t [] (([] # wd) @ comps) = walk t wd comps"
proof -
  have root: "is_dir_at t []"
  proof (cases wd)
    case Nil
    with assms(3) show ?thesis by simp
  next
    case (Cons c cs)
    with assms(2) show ?thesis by (auto simp: is_dir_at_def split: option.splits node.splits)
  qed
  then have "walk t [] ([] # wd) = walk t [] wd"
    by (auto simp: is_dir_at_def step_def split: option.splits node.splits)
  with assms(2) have "walk t [] ([] # wd) = Inr wd" by simp
  then show ?thesis using walk_append[of t "[]" "[] # wd" comps] by simp
qed

lemma stat_absolute:
  assumes "os_getcwd t wd = Inr d" "path \<noteq> []" "hd path \<noteq> CHR ''/''"
  shows "stat t wd (rstrip_slash d @ ''/'' @ path) = stat t wd path"
proof -
  let ?D = "concat (map ((#) CHR ''/'') wd)"
  from assms(1) have pl: "list_all plain wd" and wk: "walk t [] wd = Inr wd"
    and dir: "is_dir_at t wd" and d: "d = (if wd = [] then ''/'' else ?D)"
    by (auto simp: os_getcwd_def split: if_splits)
  have r: "rstrip_slash d = ?D" unfolding d by (rule cwd_path_rstrip[OF pl])
  have sp: "split_slash (?D @ ''/'' @ path) = ([] # wd) @ split_slash path"
    using split_slash_join[of ?D path] split_cwd_path[OF pl] by simp
  have "hd (?D @ ''/'' @ path) = CHR ''/''"
    using cwd_path_last[OF pl] by (cases "wd = []") auto
  then have sd: "start_dir wd (?D @ ''/'' @ path) = []" by (simp add: start_dir_def)
  have sd': "start_dir wd path = wd" using assms(2,3) by (simp add: start_dir_def)
  show ?thesis
    unfolding r stat_def sd sd' sp walk_from_root[OF pl wk dir]
    using assms(2) by simp
qed

lemma suffix_py_plain_end:
  assumes "suffix ''.py'' p"
  shows "p \<noteq> []" and "rstrip_slash p = p"
proof -
  from assms obtain q where p: "p = q @ ''.py''" by (auto simp: suffix_def)
  then show ne: "p \<noteq> []" by simp
  from p have "last p \<noteq> CHR ''/''" by simp
  with ne show "rstrip_slash p = p" by (rule rstrip_slash_id)
qed

lemma getcwd_nonempty: "os_getcwd t wd = Inr d \<Longrightarrow> d \<noteq> []"
  using cwd_path_last[of wd] by (auto simp: os_getcwd_def split: if_splits)

lemma absolute_location_py:
  assumes "suffix ''.py'' path"
  shows "suffix ''.py'' (absolute_location t wd path)"
proof (cases "os_getcwd t wd")
  case (Inl e)
  with assms show ?thesis by (simp add: absolute_location_def)
next
  case (Inr d)
  from assms have "suffix ''.py'' (rstrip_slash d @ ''/'' @ path)"
    by (auto simp: suffix_def)
  with assms Inr getcwd_nonempty[OF Inr] suffix_py_plain_end[OF assms] show ?thesis
    by (simp add: absolute_location_def importlib_path_join_def)
qed

lemma read_absolute_location:
  assumes "suffix ''.py'' path" "read_bytes t wd path = Inr source"
  shows "read_bytes t wd (absolute_location t wd path) = Inr source"
proof (cases "hd path = CHR ''/'' \<or> (\<exists>e. os_getcwd t wd = Inl e)")
  case True
  with assms(2) suffix_py_plain_end(1)[OF assms(1)] show ?thesis
    by (auto simp: absolute_location_def)
next
  case False
  then obtain d where d: "os_getcwd t wd = Inr d" and rel: "hd path \<noteq> CHR ''/''"
    by (cases "os_getcwd t wd") auto
  have ne: "path \<noteq> []" by (rule suffix_py_plain_end(1)[OF assms(1)])
  have a: "absolute_location t wd path = rstrip_slash d @ ''/'' @ path"
    using d rel ne getcwd_nonempty[OF d] suffix_py_plain_end(2)[OF assms(1)]
    by (simp add: absolute_location_def importlib_path_join_def)
  from assms(2) have "stat t wd path = Inr (File source)"
    by (auto simp: read_bytes_def split: sum.splits node.splits)
  with stat_absolute[OF d ne rel] have "stat t wd (rstrip_slash d @ ''/'' @ path) = Inr (File source)"
    by simp
  then show ?thesis unfolding a by (simp add: read_bytes_def)
qed

section \<open>Running a notebook\<close>

lemma py_not_so: "suffix ''.py'' p \<Longrightarrow> \<not> suffix ''.so'' p"
  by (auto simp: suffix_def)

lemma spec_py:
  assumes "suffix ''.py'' p"
  shows "spec_from_file_location w n p =
     Some \<lparr>spec_name = n, spec_origin = absolute_location (fs w) (cwd w) p,
           spec_loader = Some SourceFileLoader\<rparr>"
  using absolute_location_py[OF assms, of "fs w" "cwd w"]
    py_not_so[OF absolute_location_py[OF assms, of "fs w" "cwd w"]]
  by (simp add: spec_from_file_location_def Let_def)

lemma execute_source:
  assumes "suffix ''.py'' path"
  shows "execute_notebook py w path =
     (let m = \<lparr>mod_name = ''notebook_module'', mod_origin = absolute_location (fs w) (cwd w) path\<rparr>;
          w' = w\<lparr>sys_modules := (sys_modules w)(''notebook_module'' \<mapsto> m)\<rparr>
      in case exec_module py w' SourceFileLoader m [] of
           (buffer, reg, Some e) \<Rightarrow>
             (Inl (except_Exception (execute_notebook_frame (Some buffer)) e),
              w'\<lparr>sys_modules := reg\<rparr>)
         | (buffer, reg, None) \<Rightarrow> (Inr buffer, w'\<lparr>sys_modules := reg\<rparr>))"
  by (simp add: execute_notebook_def spec_py[OF assms] module_from_spec_def Let_def)

lemma exec_source:
  assumes "suffix ''.py'' path"
    and "read_bytes (fs w) (cwd w) path = Inr source"
    and "py SourceFileLoader source = Inr code"
  shows "exec_module py (w\<lparr>sys_modules := reg\<rparr>) SourceFileLoader
           \<lparr>mod_name = n, mod_origin = absolute_location (fs w) (cwd w) path\<rparr> buffer =
         run_toplevel code buffer reg"
  using read_absolute_location[OF assms(1,2)] assms(3)
  by (simp add: exec_module_def get_code_def)

text \<open>
  Claim C8. For a script file whose top-level code prints \<^verbatim>\<open>hello\<close> and then
  \<^verbatim>\<open>world\<close>, \<^verbatim>\<open>execute_notebook\<close> returns the two lines, each ended by a line feed.
\<close>

theorem hello_world:
  assumes "suffix ''.py'' path"
    and "read_bytes (fs w) (cwd w) path = Inr source"
    and "py SourceFileLoader source = Inr [Print ''hello'', Print ''world'']"
  shows "fst (execute_notebook py w path) = Inr (''hello'' @ [LF] @ ''world'' @ [LF])"
  by (simp add: execute_source[OF assms(1)]
      exec_source[where py = py and source = source, OF assms])


lemma nb_suffix: "suffix ''.py'' notebook_path"
  by (simp add: notebook_path_def suffix_def)

lemma read_notebook:
  "read_bytes (fs (notebook_world s)) (cwd (notebook_world s)) notebook_path = Inr s"
  by (simp add: notebook_world_def notebook_path_def read_bytes_def stat_def start_dir_def
      step_def)

lemma demo_hello:
  "demo_python SourceFileLoader hello_script = Inr [Print ''hello'', Print ''world'']"
  by (simp add: demo_python_def)

theorem hello_world_witness:
  "suffix ''.py'' notebook_path \<and>
   read_bytes (fs (notebook_world hello_script)) (cwd (notebook_world hello_script)) notebook_path = Inr hello_script \<and>
   demo_python SourceFileLoader hello_script = Inr [Print ''hello'', Print ''world''] \<and>
   fst (execute_notebook demo_python (notebook_world hello_script) notebook_path) = Inr (''hello'' @ [LF] @ ''world'' @ [LF])"
  using hello_world[where py = demo_python and w = "notebook_world hello_script"
      and path = notebook_path and source = hello_script]
    nb_suffix read_notebook[of hello_script] demo_hello by simp













end
